(* ===== verification/Go_Prelude.thy ===== *)
theory Go_Prelude
  imports Main "HOL-Library.Signed_Division"
begin

text \<open>
  The Go runtime as the harness sees it.  A Go runtime panic (index out of range,
  bad slice bounds, a negative length given to \<open>make\<close>, integer division by
  zero, or a called library's own panic on bad operands) is the left value of a sum; a computation that returns normally is the
  right value.  Slices are lists indexed by Go's \<open>int\<close> (modelled as \<open>int\<close>:
  the harness's index arithmetic stays far below \<open>2^63\<close>), loops are folds over
  index lists, and integer \<open>/\<close> and \<open>%\<close> truncate towards zero as in Go.
\<close>

section \<open>Panics and the result type\<close>

datatype panic =
    IndexOutOfRange
  | SliceBoundsOutOfRange
  | MakeLenOutOfRange
  | IntegerDivideByZero
  | BadShape \<comment> \<open>a library's own panic on malformed operands, e.g. \<open>blas: bad shape\<close>\<close>

type_synonym 'a go = "panic + 'a"

named_theorems go_simps \<open>evaluation rules of the Go runtime model\<close>

definition go_bind :: "'a go \<Rightarrow> ('a \<Rightarrow> 'b go) \<Rightarrow> 'b go" where
  "go_bind m f = (case m of Inl e \<Rightarrow> Inl e | Inr x \<Rightarrow> f x)"

lemma go_bind_Inl [simp, go_simps]: "go_bind (Inl e) f = Inl e"
  by (simp add: go_bind_def)

lemma go_bind_Inr [simp, go_simps]: "go_bind (Inr x) f = f x"
  by (simp add: go_bind_def)

lemma go_bind_eq_Inr:
  "go_bind m f = Inr y \<longleftrightarrow> (\<exists>x. m = Inr x \<and> f x = Inr y)"
  by (cases m) auto

section \<open>Slices\<close>

text \<open>\<open>make([]T, n)\<close>: a fresh slice of \<open>n\<close> zero values; negative \<open>n\<close> panics.\<close>

definition go_make :: "int \<Rightarrow> 'a \<Rightarrow> 'a list go" where
  "go_make n z = (if n < 0 then Inl MakeLenOutOfRange else Inr (replicate (nat n) z))"

text \<open>\<open>x[i]\<close> as an rvalue, and \<open>x[i] = v\<close> as a statement.\<close>

definition go_index :: "'a list \<Rightarrow> int \<Rightarrow> 'a go" where
  "go_index xs i = (if 0 \<le> i \<and> i < int (length xs) then Inr (xs ! nat i) else Inl IndexOutOfRange)"

definition go_store :: "'a list \<Rightarrow> int \<Rightarrow> 'a \<Rightarrow> 'a list go" where
  "go_store xs i v =
     (if 0 \<le> i \<and> i < int (length xs) then Inr (xs[nat i := v]) else Inl IndexOutOfRange)"

text \<open>
  \<open>v[j] = x\<close> where \<open>v\<close> is the view \<open>w[off : off + vlen]\<close> of the backing
  array \<open>w\<close>: bounds are checked against the view, the write lands in \<open>w\<close>.
\<close>

definition go_store_view :: "'a list \<Rightarrow> int \<Rightarrow> int \<Rightarrow> int \<Rightarrow> 'a \<Rightarrow> 'a list go" where
  "go_store_view w off vlen j x =
     (if 0 \<le> j \<and> j < vlen then go_store w (off + j) x else Inl IndexOutOfRange)"

text \<open>
  \<open>x[lo:hi]\<close> on a slice whose capacity is its length (every slice the harness
  slices comes straight from \<open>make\<close>).
\<close>

definition go_slice :: "'a list \<Rightarrow> int \<Rightarrow> int \<Rightarrow> 'a list go" where
  "go_slice xs lo hi =
     (if 0 \<le> lo \<and> lo \<le> hi \<and> hi \<le> int (length xs)
      then Inr (take (nat hi - nat lo) (drop (nat lo) xs)) else Inl SliceBoundsOutOfRange)"

text \<open>\<open>copy(dst, src)\<close>: copies \<open>min(len(dst), len(src))\<close> elements into \<open>dst\<close>.\<close>

definition go_copy :: "'a list \<Rightarrow> 'a list \<Rightarrow> 'a list" where
  "go_copy dst src =
     (let k = min (length dst) (length src) in take k src @ drop k dst)"

section \<open>Integer division\<close>

definition go_div :: "int \<Rightarrow> int \<Rightarrow> int go" where
  "go_div a b = (if b = 0 then Inl IntegerDivideByZero else Inr (a sdiv b))"

definition go_mod :: "int \<Rightarrow> int \<Rightarrow> int go" where
  "go_mod a b = (if b = 0 then Inl IntegerDivideByZero else Inr (a smod b))"

section \<open>Loops\<close>

text \<open>
  \<open>for _, x := range xs { body }\<close> threading a state \<open>s\<close>; the first panic
  ends the loop.
\<close>

fun go_fold :: "('a \<Rightarrow> 's \<Rightarrow> 's go) \<Rightarrow> 'a list \<Rightarrow> 's \<Rightarrow> 's go" where
  "go_fold f [] s = Inr s"
| "go_fold f (x # xs) s = go_bind (f x s) (go_fold f xs)"

text \<open>
  A loop that may return early with a result (\<open>return r\<close> inside the body):
  the body gives \<open>Some r\<close> to return, \<open>None\<close> to go on; \<open>d\<close> is the value
  returned after the loop.
\<close>

fun go_find :: "('a \<Rightarrow> 'b option go) \<Rightarrow> 'a list \<Rightarrow> 'b \<Rightarrow> 'b go" where
  "go_find f [] d = Inr d"
| "go_find f (x # xs) d =
     go_bind (f x) (\<lambda>r. case r of Some b \<Rightarrow> Inr b | None \<Rightarrow> go_find f xs d)"

text \<open>A loop whose body emits messages (\<open>t.Errorf\<close>), collected in order.\<close>

fun go_emit :: "('a \<Rightarrow> 'b list go) \<Rightarrow> 'a list \<Rightarrow> 'b list go" where
  "go_emit f [] = Inr []"
| "go_emit f (x # xs) = go_bind (f x) (\<lambda>m. go_bind (go_emit f xs) (\<lambda>ms. Inr (m @ ms)))"

text \<open>Go's integer range \<open>0, 1, ..., n-1\<close> (empty for \<open>n \<le> 0\<close>).\<close>

definition go_range :: "int \<Rightarrow> int list" where
  "go_range n = map int [0..<nat n]"

text \<open>
  The reference for a strided write loop: element \<open>k + j\<close> of the loop lands at
  offset \<open>off + (k + j) * inc\<close>.
\<close>

fun strided_put :: "'a list \<Rightarrow> nat \<Rightarrow> nat \<Rightarrow> nat \<Rightarrow> 'a list \<Rightarrow> 'a list" where
  "strided_put w off inc k [] = w"
| "strided_put w off inc k (d # ds) = strided_put (w[off + k * inc := d]) off inc (Suc k) ds"

text \<open>
  The reference for a row-major fill loop: the first \<open>k\<close> cells of \<open>z\<close> replaced by
  those of the target \<open>t\<close>.
\<close>

definition fill_prefix :: "'a list \<Rightarrow> 'a list \<Rightarrow> nat \<Rightarrow> 'a list" where
  "fill_prefix t z k = take k t @ drop k z"

section \<open>Evaluation and shared lemmas\<close>

lemmas go_defs [go_simps] =
  go_make_def go_index_def go_store_def go_store_view_def go_slice_def go_div_def go_mod_def go_range_def

lemma go_fold_append:
  "go_fold f (xs @ ys) s = go_bind (go_fold f xs s) (go_fold f ys)"
  by (induction xs arbitrary: s) (auto simp: go_bind_def split: sum.splits)

lemma go_fold_invariant:
  assumes "\<And>x s s'. x \<in> set xs \<Longrightarrow> P s \<Longrightarrow> f x s = Inr s' \<Longrightarrow> P s'"
    and "P s" and "go_fold f xs s = Inr s'"
  shows "P s'"
  using assms
proof (induction xs arbitrary: s)
  case Nil
  then show ?case by simp
next
  case (Cons x xs)
  from Cons.prems(3) obtain t where t: "f x s = Inr t" and rest: "go_fold f xs t = Inr s'"
    by (auto simp: go_bind_eq_Inr)
  have "P t" using Cons.prems(1) [of x s t] Cons.prems(2) t by simp
  then show ?case using Cons.IH Cons.prems(1) rest by auto
qed

lemma go_fold_Inr:
  assumes "\<And>x s. x \<in> set xs \<Longrightarrow> P s \<Longrightarrow> \<exists>s'. f x s = Inr s' \<and> P s'"
    and "P s"
  shows "\<exists>s'. go_fold f xs s = Inr s' \<and> P s'"
  using assms
proof (induction xs arbitrary: s)
  case Nil
  then show ?case by simp
next
  case (Cons x xs)
  then obtain t where "f x s = Inr t" and "P t" by fastforce
  with Cons.IH [of t] Cons.prems(1) show ?case by auto
qed

lemma go_find_all_None:
  "(\<forall>x \<in> set xs. f x = Inr None) \<Longrightarrow> go_find f xs d = Inr d"
  by (induction xs) auto

lemma go_emit_all_Nil:
  "(\<forall>x \<in> set xs. f x = Inr []) \<Longrightarrow> go_emit f xs = Inr []"
  by (induction xs) auto

lemma go_emit_Inr_iff:
  "go_emit f xs = Inr ms \<longleftrightarrow> (\<exists>mss. list_all2 (\<lambda>x m. f x = Inr m) xs mss \<and> ms = concat mss)"
proof (induction xs arbitrary: ms)
  case Nil
  then show ?case by auto
next
  case (Cons x xs)
  show ?case
  proof
    assume "go_emit f (x # xs) = Inr ms"
    then obtain m ms' where "f x = Inr m" "go_emit f xs = Inr ms'" "ms = m @ ms'"
      by (auto simp: go_bind_eq_Inr)
    moreover from this(2) Cons.IH obtain mss where
        "list_all2 (\<lambda>x m. f x = Inr m) xs mss" "ms' = concat mss"
      by blast
    ultimately show "\<exists>mss. list_all2 (\<lambda>x m. f x = Inr m) (x # xs) mss \<and> ms = concat mss"
      by (intro exI [of _ "m # mss"]) simp
  next
    assume "\<exists>mss. list_all2 (\<lambda>x m. f x = Inr m) (x # xs) mss \<and> ms = concat mss"
    then obtain m mss where "f x = Inr m" "list_all2 (\<lambda>x m. f x = Inr m) xs mss"
        "ms = m @ concat mss"
      by (auto simp: list_all2_Cons1)
    moreover from this(2) Cons.IH have "go_emit f xs = Inr (concat mss)" by blast
    ultimately show "go_emit f (x # xs) = Inr ms" by simp
  qed
qed

lemma set_go_range [simp]: "set (go_range n) = {0..<n}"
  by (cases "0 \<le> n") (auto simp: go_range_def image_int_atLeastLessThan)

lemma length_go_range [simp]: "length (go_range n) = nat n"
  by (simp add: go_range_def)

lemma go_range_Suc:
  "0 \<le> n \<Longrightarrow> go_range (n + 1) = go_range n @ [n]"
  by (simp add: go_range_def nat_add_distrib)

lemma length_go_copy [simp]: "length (go_copy dst src) = length dst"
  by (simp add: go_copy_def Let_def)

lemma go_copy_same_length [simp]:
  "length src = length dst \<Longrightarrow> go_copy dst src = src"
  by (simp add: go_copy_def)

lemma go_store_length:
  "go_store xs i v = Inr ys \<Longrightarrow> length ys = length xs"
  by (auto simp: go_store_def split: if_splits)

lemma sdiv_nonneg_int:
  "0 \<le> (a::int) \<Longrightarrow> 0 < b \<Longrightarrow> a sdiv b = a div b"
  by (simp add: signed_divide_int_def sgn_if)

lemma smod_eq_0_iff_dvd [simp]: "((a::int) smod b = 0) = (b dvd a)"
proof -
  have "(a smod b = 0) = (a = 0 \<or> \<bar>a\<bar> mod \<bar>b\<bar> = 0)"
    by (simp add: signed_modulo_int_def sgn_0_0)
  also have "\<dots> = (b dvd a)"
    by (auto simp flip: dvd_eq_mod_eq_0)
  finally show ?thesis .
qed

lemma length_strided_put [simp]: "length (strided_put w off inc k ds) = length w"
  by (induction ds arbitrary: w k) simp_all

lemma nth_strided_put:
  assumes "0 < inc" "p < length w"
  shows "strided_put w off inc k ds ! p =
     (if off \<le> p \<and> (p - off) mod inc = 0 \<and> k \<le> (p - off) div inc \<and> (p - off) div inc < k + length ds
      then ds ! ((p - off) div inc - k) else w ! p)"
  using assms(2)
proof (induction ds arbitrary: w k)
  case Nil
  then show ?case by auto
next
  case (Cons d ds)
  let ?q = "(p - off) div inc"
  have hit: "p = off + k * inc \<longleftrightarrow> off \<le> p \<and> (p - off) mod inc = 0 \<and> ?q = k"
  proof
    assume "p = off + k * inc"
    with assms(1) show "off \<le> p \<and> (p - off) mod inc = 0 \<and> ?q = k" by simp
  next
    assume h: "off \<le> p \<and> (p - off) mod inc = 0 \<and> ?q = k"
    then have "p - off = k * inc" by (metis div_mult_mod_eq add_0_right)
    with h show "p = off + k * inc" by linarith
  qed
  have "strided_put w off inc k (d # ds) ! p = strided_put (w[off + k * inc := d]) off inc (Suc k) ds ! p"
    by simp
  also have "\<dots> = (if off \<le> p \<and> (p - off) mod inc = 0 \<and> Suc k \<le> ?q \<and> ?q < Suc k + length ds
      then ds ! (?q - Suc k) else w[off + k * inc := d] ! p)"
    using Cons.IH Cons.prems by simp
  also have "\<dots> = (if off \<le> p \<and> (p - off) mod inc = 0 \<and> k \<le> ?q \<and> ?q < k + length (d # ds)
      then (d # ds) ! (?q - k) else w ! p)"
    using hit Cons.prems by (auto simp: nth_list_update Suc_le_eq not_less_eq_eq)
  finally show ?case .
qed

lemma go_fold_store_fill:
  "k \<le> length w \<Longrightarrow>
   go_fold (\<lambda>i w. go_store w i x) (map int [0..<k]) w = Inr (replicate k x @ drop k w)"
proof (induction k)
  case 0
  then show ?case by simp
next
  case (Suc k)
  then have "go_fold (\<lambda>i w. go_store w i x) (map int [0..<Suc k]) w =
      go_bind (Inr (replicate k x @ drop k w)) (go_fold (\<lambda>i w. go_store w i x) [int k])"
    by (simp add: go_fold_append)
  also have "\<dots> = Inr (replicate (Suc k) x @ drop (Suc k) w)"
    using Suc.prems
    by (simp add: go_store_def list_update_append Cons_nth_drop_Suc [symmetric] replicate_append_same)
  finally show ?case .
qed

lemma go_fold_store_fill_all:
  "go_fold (\<lambda>i w. go_store w i x) (go_range (int (length w))) w = Inr (replicate (length w) x)"
  using go_fold_store_fill [of "length w" w x] by (simp add: go_range_def)

lemma go_fold_store_view_strided:
  assumes "0 < inc" "0 \<le> off" "off + vlen \<le> int (length w)"
    and "ds \<noteq> [] \<Longrightarrow> int (k + length ds - 1) * inc < vlen"
  shows "go_fold (\<lambda>(i, d) w. go_store_view w off vlen (int i * inc) d) (enumerate k ds) w =
         Inr (strided_put w (nat off) (nat inc) k ds)"
  using assms(3,4)
proof (induction ds arbitrary: w k)
  case Nil
  then show ?case by simp
next
  case (Cons d ds)
  have lt: "int k * inc < vlen"
  proof -
    have "int k * inc \<le> int (k + length (d # ds) - 1) * inc"
      using assms(1) by (intro mult_right_mono) simp_all
    then show ?thesis using Cons.prems(2) by simp
  qed
  have nn: "0 \<le> int k * inc" using assms(1) by simp
  have st: "go_store_view w off vlen (int k * inc) d = Inr (w[nat off + k * nat inc := d])"
    using lt nn Cons.prems(1) assms(2)
    by (simp add: go_store_view_def go_store_def nat_add_distrib nat_mult_distrib)
  have "go_fold (\<lambda>(i, d) w. go_store_view w off vlen (int i * inc) d) (enumerate (Suc k) ds)
          (w[nat off + k * nat inc := d]) = Inr (strided_put (w[nat off + k * nat inc := d]) (nat off) (nat inc) (Suc k) ds)"
    using Cons.prems by (intro Cons.IH) auto
  with st show ?case by simp
qed


lemma go_make_int: "go_make (int n) z = Inr (replicate n z)"
  by (simp add: go_make_def)

lemma go_find_flag:
  "(\<forall>x \<in> set xs. f x = Inr (if P x then Some b else None)) \<Longrightarrow>
   go_find f xs (\<not> b) = Inr (if \<exists>x \<in> set xs. P x then b else \<not> b)"
  by (induction xs) auto

lemma go_emit_Nil_iff: "go_emit f xs = Inr [] \<longleftrightarrow> (\<forall>x \<in> set xs. f x = Inr [])"
proof (induction xs)
  case (Cons x xs)
  then show ?case by (cases "f x"; cases "go_emit f xs") auto
qed simp

lemma go_fold_cong:
  "(\<And>x s. x \<in> set xs \<Longrightarrow> f x s = g x s) \<Longrightarrow> go_fold f xs s = go_fold g xs s"
  by (induction xs arbitrary: s) (auto simp: go_bind_def split: sum.splits)


lemma fill_prefix_step:
  assumes "k < length t" "length z = length t"
  shows "(fill_prefix t z k)[k := t ! k] = fill_prefix t z (Suc k)"
  using assms
  by (simp add: fill_prefix_def list_update_append take_Suc_conv_app_nth Cons_nth_drop_Suc [symmetric])

lemma go_fold_fill_steps:
  assumes "\<And>x. x < X \<Longrightarrow> f (g x) (fill_prefix t z (b + x * m)) = Inr (fill_prefix t z (b + Suc x * m))"
  shows "go_fold f (map g [0..<X]) (fill_prefix t z b) = Inr (fill_prefix t z (b + X * m))"
  using assms
proof (induction X)
  case 0
  then show ?case by simp
next
  case (Suc X)
  have "go_fold f (map g [0..<X]) (fill_prefix t z b) = Inr (fill_prefix t z (b + X * m))"
    using Suc.prems by (intro Suc.IH) auto
  moreover have "f (g X) (fill_prefix t z (b + X * m)) = Inr (fill_prefix t z (b + Suc X * m))"
    using Suc.prems by simp
  ultimately show ?case by (simp add: go_fold_append)
qed

lemma enumerate_0_map: "enumerate 0 xs = map (\<lambda>i. (i, xs ! i)) [0..<length xs]"
  by (rule nth_equalityI) (simp_all add: nth_enumerate_eq)

lemma fill_prefix_full [simp]: "length z = length t \<Longrightarrow> fill_prefix t z (length t) = t"
  by (simp add: fill_prefix_def)

lemma fill_prefix_0 [simp]: "fill_prefix t z 0 = z"
  by (simp add: fill_prefix_def)

lemma length_fill_prefix [simp]: "length z = length t \<Longrightarrow> length (fill_prefix t z k) = length t"
  by (simp add: fill_prefix_def)

lemma row_index_bound: "x < (a::nat) \<Longrightarrow> y < b \<Longrightarrow> x * b + y < a * b"
proof -
  assume "x < a" "y < b"
  have "x * b + y < x * b + b" using \<open>y < b\<close> by simp
  also have "\<dots> = Suc x * b" by simp
  also have "\<dots> \<le> a * b" using \<open>x < a\<close> by (intro mult_right_mono) auto
  finally show ?thesis .
qed

lemma row_div_mod: "y < (b::nat) \<Longrightarrow> (x * b + y) div b = x \<and> (x * b + y) mod b = y"
  by simp

lemma product_nth_row:
  assumes "x < length xs" "y < length ys"
  shows "List.product xs ys ! (x * length ys + y) = (xs ! x, ys ! y)"
proof -
  have d: "(x * length ys + y) div length ys = x" "(x * length ys + y) mod length ys = y"
    using row_div_mod [OF assms(2)] by simp_all
  show ?thesis using row_index_bound [OF assms] by (simp only: product_nth d)
qed

lemma go_store_fill_prefix:
  assumes "k < length t" "length z = length t" "v = t ! k"
  shows "go_store (fill_prefix t z k) (int k) v = Inr (fill_prefix t z (Suc k))"
  using assms fill_prefix_step [OF assms(1,2)] by (simp add: go_store_def)


section \<open>Row-major indices and stores\<close>

lemma row_major_index:
  fixes i j n :: int
  assumes "0 \<le> i" "i < n" "0 \<le> j" "j < n"
  shows "0 \<le> i * n + j" "i * n + j < n * n"
proof -
  have "i * n \<le> (n - 1) * n" using assms by (intro mult_right_mono) auto
  moreover have "(n - 1) * n = n * n - n" by (simp add: algebra_simps)
  ultimately show "0 \<le> i * n + j" "i * n + j < n * n" using assms by simp_all
qed

lemma go_store_in_range:
  "0 \<le> i \<Longrightarrow> i < int (length xs) \<Longrightarrow> go_store xs i v = Inr (xs[nat i := v])"
  by (simp add: go_store_def)

lemma square_pos_inj:
  fixes n :: nat
  assumes "j < n" "b < n"
  shows "(i * n + j = a * n + b) = (i = a \<and> j = b)"
proof
  assume e: "i * n + j = a * n + b"
  have "(i * n + j) div n = i" "(a * n + b) div n = a" "(i * n + j) mod n = j" "(a * n + b) mod n = b"
    using assms by simp_all
  then show "i = a \<and> j = b" using e by metis
qed simp

lemma row_major_lt:
  fixes n :: nat
  assumes "i < n" "j < n"
  shows "i * n + j < n * n"
proof -
  have "Suc i * n \<le> n * n" using assms(1) by (intro mult_le_mono1) simp
  then show ?thesis using assms(2) by simp
qed

lemma go_store_nat:
  "e = int q \<Longrightarrow> q < length d \<Longrightarrow> go_store d e v = Inr (d[q := v])"
  by (simp add: go_store_def)

lemma go_store4:
  assumes "e1 = int q1" "e2 = int q2" "e3 = int q3" "e4 = int q4"
    and "q1 < length d" "q2 < length d" "q3 < length d" "q4 < length d"
  shows "go_bind (go_store d e1 v1) (\<lambda>d. go_bind (go_store d e2 v2) (\<lambda>d.
           go_bind (go_store d e3 v3) (\<lambda>d. go_store d e4 v4))) =
         Inr (d[q1 := v1, q2 := v2, q3 := v3, q4 := v4])"
  using assms by (simp add: go_store_nat)

lemma nat_int_arith [simp]:
  "nat (int a * int b) = a * b" "nat (int a * int b + int c) = a * b + c"
  by (simp_all only: of_nat_mult [symmetric] of_nat_add [symmetric] nat_int)

end
