(* ===== verification/Scalar.thy ===== *)
theory Scalar
  imports Complex_Main Go_Prelude
begin

text \<open>
  Float64 values and the comparison oracle of the harness.  A \<open>float64\<close> is
  modelled by its value: a finite real, one of the two infinities, or NaN.  Rounding
  is not modelled (the harness compares values; it never inspects bit patterns),
  and the two zeros are one value, as Go's \<open>==\<close> treats them.
  \<open>scalar.Same\<close>, \<open>scalar.EqualWithinAbsOrRel\<close> and \<open>floats.EqualApprox\<close> live
  outside this repository and are modelled from the spec (section 4.3);
  \<open>sameApprox\<close> is the harness's own (asm_test.go).
\<close>

datatype f64 = Fin real | PosInf | NegInf | NaN

text \<open>\<open>math.IsNaN\<close> and Go's \<open>==\<close> on float64 (NaN equals nothing).\<close>

definition is_nan :: "f64 \<Rightarrow> bool" where
  "is_nan x = (x = NaN)"

definition f64_eq :: "f64 \<Rightarrow> f64 \<Rightarrow> bool" where
  "f64_eq a b = (a \<noteq> NaN \<and> b \<noteq> NaN \<and> a = b)"

text \<open>\<open>scalar.Same\<close>: equal, or both NaN.\<close>

definition same :: "f64 \<Rightarrow> f64 \<Rightarrow> bool" where
  "same a b = (f64_eq a b \<or> (is_nan a \<and> is_nan b))"

text \<open>
  \<open>scalar.EqualWithinAbsOrRel(a, b, absTol, relTol)\<close>: equal, or finite and within
  the absolute tolerance, or finite and within the tolerance relative to the larger
  magnitude.  NaN is within no tolerance of anything; an infinity only of itself.
\<close>

definition equal_within_abs_or_rel :: "f64 \<Rightarrow> f64 \<Rightarrow> real \<Rightarrow> real \<Rightarrow> bool" where
  "equal_within_abs_or_rel a b abs_tol rel_tol =
     (f64_eq a b \<or>
      (case (a, b) of
         (Fin x, Fin y) \<Rightarrow> \<bar>x - y\<bar> \<le> abs_tol \<or> \<bar>x - y\<bar> \<le> rel_tol * max \<bar>x\<bar> \<bar>y\<bar>
       | _ \<Rightarrow> False))"

text \<open>\<open>sameApprox\<close> (asm_test.go): NaN-aware equality within tolerance.\<close>

definition sameApprox :: "f64 \<Rightarrow> f64 \<Rightarrow> real \<Rightarrow> bool" where
  "sameApprox a b tol = (same a b \<or> equal_within_abs_or_rel a b tol tol)"

text \<open>\<open>floats.EqualApprox(s1, s2, tol)\<close>: same length, elementwise within tolerance.\<close>

definition equal_approx :: "f64 list \<Rightarrow> f64 list \<Rightarrow> real \<Rightarrow> bool" where
  "equal_approx s1 s2 tol =
     (length s1 = length s2 \<and> list_all2 (\<lambda>a b. equal_within_abs_or_rel a b tol tol) s1 s2)"

section \<open>Lemmas\<close>

lemmas scalar_defs = is_nan_def f64_eq_def same_def equal_within_abs_or_rel_def sameApprox_def

lemma same_refl [simp]: "same x x"
  by (cases x) (simp_all add: same_def f64_eq_def is_nan_def)

lemma same_sym: "same a b = same b a"
  by (auto simp: same_def f64_eq_def)

lemma same_NaN_iff [simp]: "same NaN b = is_nan b" "same a NaN = is_nan a"
  by (simp_all add: same_def f64_eq_def is_nan_def)

lemma same_not_NaN: "\<not> is_nan a \<Longrightarrow> same a b = (a = b)"
  by (auto simp: same_def f64_eq_def is_nan_def)

lemma same_eq_iff: "same a b = (a = b)"
  by (cases a; cases b) (simp_all add: same_def f64_eq_def is_nan_def)

lemma is_nan_simps [simp]:
  "is_nan NaN" "\<not> is_nan (Fin r)" "\<not> is_nan PosInf" "\<not> is_nan NegInf"
  by (simp_all add: is_nan_def)

lemma equal_within_sym:
  "equal_within_abs_or_rel a b t u = equal_within_abs_or_rel b a t u"
  by (cases a; cases b) (auto simp: equal_within_abs_or_rel_def f64_eq_def abs_minus_commute max.commute)

lemma equal_within_NaN [simp]:
  "\<not> equal_within_abs_or_rel NaN b t u" "\<not> equal_within_abs_or_rel a NaN t u"
  by (cases a; cases b; simp add: equal_within_abs_or_rel_def f64_eq_def)+

lemma equal_within_refl_Fin:
  "0 \<le> t \<Longrightarrow> equal_within_abs_or_rel (Fin x) (Fin x) t u"
  by (simp add: equal_within_abs_or_rel_def f64_eq_def)

lemma equal_approx_refl_Fin:
  "0 \<le> t \<Longrightarrow> equal_approx (map Fin xs) (map Fin xs) t"
  by (induction xs) (simp_all add: equal_approx_def equal_within_refl_Fin)

lemma equal_approx_Fin_iff:
  "equal_approx (map Fin xs) (map Fin ys) t \<longleftrightarrow>
   length xs = length ys \<and>
   (\<forall>i < length xs. xs ! i = ys ! i \<or> \<bar>xs ! i - ys ! i\<bar> \<le> t \<or>
                     \<bar>xs ! i - ys ! i\<bar> \<le> t * max \<bar>xs ! i\<bar> \<bar>ys ! i\<bar>)"
  by (auto simp: equal_approx_def list_all2_conv_all_nth equal_within_abs_or_rel_def f64_eq_def)


text \<open>
  Claim C17.  \<open>sameApprox\<close> is reflexive for every value and every tolerance, NaN
  included (spec, section 8).
\<close>

theorem sameApprox_refl: "sameApprox x x tol"
  by (simp add: sameApprox_def)

end
