(* ===== verification/Guarded.thy ===== *)
theory Guarded
  imports Scalar
begin

text \<open>
  The guarded-vector builder and its checks in \<open>src/internal/asm/f64/asm_test.go\<close>
  (\<open>newGuardedVector\<close>, \<open>allNaN\<close>, \<open>equalStrided\<close>, \<open>nonStridedWrite\<close>).  A guarded
  vector is one backing array \<open>whole\<close> with three aliasing views (the strided
  vector and its front and back guards), so the model keeps the array and the view
  bounds (record \<open>gvec\<close>); a kernel under test is any function on the backing
  array.  Every Go panic of these helpers is an \<open>Inl\<close> result.
\<close>

record gvec =
  gv_whole :: "f64 list"
  gv_lo :: int
  gv_hi :: int

definition gv_v :: "gvec \<Rightarrow> f64 list" where
  "gv_v g = take (nat (gv_hi g) - nat (gv_lo g)) (drop (nat (gv_lo g)) (gv_whole g))"

definition gv_front :: "gvec \<Rightarrow> f64 list" where
  "gv_front g = take (nat (gv_lo g)) (gv_whole g)"

definition gv_back :: "gvec \<Rightarrow> f64 list" where
  "gv_back g = drop (nat (gv_hi g)) (gv_whole g)"

text \<open>
  Well-formed views: the inner view lies inside the backing array and the two guards
  have the same length.
\<close>

definition gvec_wf :: "gvec \<Rightarrow> bool" where
  "gvec_wf g = (0 \<le> gv_lo g \<and> gv_lo g \<le> gv_hi g \<and> gv_hi g \<le> int (length (gv_whole g)) \<and>
                gv_lo g = int (length (gv_whole g)) - gv_hi g)"

definition newGuardedVector :: "f64 list \<Rightarrow> int \<Rightarrow> gvec go" where
  "newGuardedVector data inc0 =
     (let inc = (if inc0 < 0 then - inc0 else inc0);
          guard = 2 * inc;
          size = (int (length data) - 1) * inc + 1
      in go_bind (go_make (size + 2 * guard) (Fin 0)) (\<lambda>whole.
         go_bind (go_slice whole guard (int (length whole) - guard)) (\<lambda>v.
         go_bind (go_fold (\<lambda>i w. go_store w i NaN) (go_range (int (length whole))) whole) (\<lambda>whole.
         go_bind (go_fold (\<lambda>(i, d) w. go_store_view w guard (int (length v)) (int i * inc) d)
                    (enumerate 0 data) whole) (\<lambda>whole.
         Inr \<lparr>gv_whole = whole, gv_lo = guard, gv_hi = int (length whole) - guard\<rparr>)))))"

fun allNaN :: "f64 list \<Rightarrow> bool" where
  "allNaN [] = True"
| "allNaN (v # x) = (if \<not> is_nan v then False else allNaN x)"

definition equalStrided :: "f64 list \<Rightarrow> f64 list \<Rightarrow> int \<Rightarrow> bool go" where
  "equalStrided ref x inc0 =
     (let inc = (if inc0 < 0 then - inc0 else inc0)
      in go_find (\<lambda>(i, v). go_bind (go_index x (int i * inc)) (\<lambda>xi.
                    Inr (if \<not> same xi v then Some False else None)))
           (enumerate 0 ref) True)"

definition nonStridedWrite :: "f64 list \<Rightarrow> int \<Rightarrow> bool go" where
  "nonStridedWrite x inc0 =
     (let inc = (if inc0 < 0 then - inc0 else inc0)
      in go_find (\<lambda>(i, v). go_bind (go_mod (int i) inc) (\<lambda>r.
                    Inr (if r \<noteq> 0 \<and> \<not> is_nan v then Some True else None)))
           (enumerate 0 x) False)"

definition guarded_len :: "nat \<Rightarrow> nat \<Rightarrow> nat" where
  "guarded_len n a = (n - 1) * a + 1 + 4 * a"

lemma abs_if_int: "(if (x::int) < 0 then - x else x) = \<bar>x\<bar>"
  by simp

lemma go_slice_replicate:
  "lo \<le> hi \<Longrightarrow> hi \<le> L \<Longrightarrow> go_slice (replicate L x) (int lo) (int hi) = Inr (replicate (hi - lo) x)"
  by (simp add: go_slice_def)

lemma newGuardedVector_eq:
  assumes "inc \<noteq> 0" "data \<noteq> []"
  shows "newGuardedVector data inc =
    Inr \<lparr>gv_whole = strided_put (replicate (guarded_len (length data) (nat \<bar>inc\<bar>)) NaN)
                        (2 * nat \<bar>inc\<bar>) (nat \<bar>inc\<bar>) 0 data,
         gv_lo = 2 * \<bar>inc\<bar>,
         gv_hi = int (guarded_len (length data) (nat \<bar>inc\<bar>)) - 2 * \<bar>inc\<bar>\<rparr>"
proof -
  define a where "a = nat \<bar>inc\<bar>"
  let ?n = "length data"
  let ?s = "(?n - 1) * a + 1"
  let ?L = "guarded_len ?n a"
  have ia: "\<bar>inc\<bar> = int a" and a: "0 < a" using assms(1) by (simp_all add: a_def)
  have n: "1 \<le> ?n" using assms(2) by (cases data) auto
  have sz: "(int ?n - 1) * int a + 1 = int ?s" using n by (simp add: of_nat_diff)
  have L: "?L = ?s + 4 * a" by (simp add: guarded_len_def)
  have mk: "go_make (int ?s + 2 * (2 * int a)) (Fin 0) = Inr (replicate ?L (Fin 0))"
  proof -
    have "int ?s + 2 * (2 * int a) = int ?L" using L by simp
    then show ?thesis by (simp only:) (simp add: go_make_def)
  qed
  have sl: "go_slice (replicate ?L (Fin 0)) (2 * int a) (int ?L - 2 * int a) =
            Inr (replicate ?s (Fin 0))"
  proof -
    have e1: "2 * int a = int (2 * a)" by simp
    have e2: "int ?L - int (2 * a) = int (2 * a + ?s)" using L by simp
    have "go_slice (replicate ?L (Fin 0)) (int (2 * a)) (int (2 * a + ?s)) = Inr (replicate ?s (Fin 0))"
      using L go_slice_replicate [of "2 * a" "2 * a + ?s" ?L "Fin 0"] by simp
    then show ?thesis by (simp only: e1 e2)
  qed
  have fill: "go_fold (\<lambda>i w. go_store w i NaN) (go_range (int ?L)) (replicate ?L (Fin 0)) =
              Inr (replicate ?L NaN)"
    using go_fold_store_fill_all [where w = "replicate ?L (Fin 0)" and x = NaN] by simp
  have put: "go_fold (\<lambda>(i, d) w. go_store_view w (2 * int a) (int ?s) (int i * int a) d)
               (enumerate 0 data) (replicate ?L NaN) =
             Inr (strided_put (replicate ?L NaN) (nat (2 * int a)) (nat (int a)) 0 data)"
    using a L n by (intro go_fold_store_view_strided) (simp_all add: of_nat_diff)
  have "newGuardedVector data inc =
    Inr \<lparr>gv_whole = strided_put (replicate ?L NaN) (nat (2 * int a)) (nat (int a)) 0 data,
         gv_lo = 2 * int a, gv_hi = int (length (strided_put (replicate ?L NaN) (nat (2 * int a)) (nat (int a)) 0 data)) - 2 * int a\<rparr>"
    unfolding newGuardedVector_def Let_def abs_if_int ia sz
    by (simp only: mk sl fill put go_bind_Inr length_replicate)
  moreover have "nat (2 * int a) = 2 * a" by (simp add: nat_mult_distrib)
  ultimately show ?thesis by (simp add: a_def [symmetric] ia)
qed

lemma go_find_enumerate_flag:
  assumes "\<forall>(i, v) \<in> set (enumerate k xs). f (i, v) = Inr (if P i v then Some b else None)"
  shows "go_find f (enumerate k xs) (\<not> b) = Inr (if \<exists>j < length xs. P (k + j) (xs ! j) then b else \<not> b)"
  using assms
proof (induction xs arbitrary: k)
  case Nil
  then show ?case by simp
next
  case (Cons x xs)
  have hd: "f (k, x) = Inr (if P k x then Some b else None)" using Cons.prems by simp
  have tl: "go_find f (enumerate (Suc k) xs) (\<not> b) =
            Inr (if \<exists>j < length xs. P (Suc k + j) (xs ! j) then b else \<not> b)"
    using Cons.prems by (intro Cons.IH) auto
  have ex: "(\<exists>j < length (x # xs). P (k + j) ((x # xs) ! j)) \<longleftrightarrow>
            P k x \<or> (\<exists>j < length xs. P (Suc k + j) (xs ! j))"
    by (auto simp: less_Suc_eq_0_disj)
  show ?case using hd tl ex by auto
qed

lemma allNaN_iff: "allNaN x = (\<forall>v \<in> set x. is_nan v)"
  by (induction x) auto

lemma nonStridedWrite_eq:
  assumes "inc \<noteq> 0"
  shows "nonStridedWrite x inc =
           Inr (\<exists>i < length x. i mod nat \<bar>inc\<bar> \<noteq> 0 \<and> \<not> is_nan (x ! i))"
proof -
  define a where "a = nat \<bar>inc\<bar>"
  have ia: "\<bar>inc\<bar> = int a" and a: "0 < a" using assms by (simp_all add: a_def)
  have body: "\<forall>(i, v) \<in> set (enumerate 0 x).
     go_bind (go_mod (int i) (int a)) (\<lambda>r. Inr (if r \<noteq> 0 \<and> \<not> is_nan v then Some True else None)) =
     Inr (if i mod a \<noteq> 0 \<and> \<not> is_nan v then Some True else None)"
    using a by (auto simp: go_mod_def dvd_eq_mod_eq_0 [symmetric])
  show ?thesis
    unfolding nonStridedWrite_def Let_def abs_if_int ia a_def [symmetric]
    using go_find_enumerate_flag [where k = 0 and xs = x and b = True
        and P = "\<lambda>i v. i mod a \<noteq> 0 \<and> \<not> is_nan v"] body
    by simp
qed

lemma equalStrided_eq:
  assumes "ref = [] \<or> (length ref - 1) * nat \<bar>inc\<bar> < length x"
  shows "equalStrided ref x inc =
           Inr (\<forall>i < length ref. same (x ! (i * nat \<bar>inc\<bar>)) (ref ! i))"
proof -
  define a where "a = nat \<bar>inc\<bar>"
  have ia: "\<bar>inc\<bar> = int a" by (simp add: a_def)
  have rng: "i * a < length x" if "i < length ref" for i
  proof -
    have le: "i * a \<le> (length ref - 1) * a" using that by (intro mult_right_mono) auto
    from assms that have "(length ref - 1) * a < length x" by (auto simp: a_def)
    with le show ?thesis by linarith
  qed
  have body: "\<forall>(i, v) \<in> set (enumerate 0 ref).
     go_bind (go_index x (int i * int a)) (\<lambda>xi. Inr (if \<not> same xi v then Some False else None)) =
     Inr (if \<not> same (x ! (i * a)) v then Some False else None)"
    using rng by (auto simp: go_index_def in_set_enumerate_eq nat_mult_distrib
        simp flip: of_nat_mult)
  show ?thesis
    unfolding equalStrided_def Let_def abs_if_int ia a_def [symmetric]
    using go_find_enumerate_flag [where k = 0 and xs = ref and b = False
        and P = "\<lambda>i v. \<not> same (x ! (i * a)) v"] body
    by simp
qed

lemma stride_slot_iff:
  assumes "0 < (a::nat)" "1 \<le> n"
  shows "(j mod a = 0 \<and> j div a < n) \<longleftrightarrow> (j mod a = 0 \<and> j < (n - 1) * a + 1)"
proof (cases "j mod a = 0")
  case True
  then have j: "j = (j div a) * a" using div_mult_mod_eq [of j a] by simp
  have "j div a < n \<longleftrightarrow> j div a \<le> n - 1" using assms(2) by linarith
  also have "\<dots> \<longleftrightarrow> (j div a) * a \<le> (n - 1) * a" using assms(1) by simp
  also have "\<dots> \<longleftrightarrow> j \<le> (n - 1) * a" using j by simp
  finally show ?thesis using True by (simp add: less_Suc_eq_le)
qed simp

lemma gv_views:
  assumes "gv_lo g = 2 * int a" "gv_hi g = int (s + 4 * a) - 2 * int a"
  shows "gv_front g = take (2 * a) (gv_whole g)"
    and "gv_v g = take s (drop (2 * a) (gv_whole g))"
    and "gv_back g = drop (2 * a + s) (gv_whole g)"
proof -
  have lo: "nat (gv_lo g) = 2 * a" and hi: "nat (gv_hi g) = 2 * a + s"
    using assms by simp_all
  show "gv_front g = take (2 * a) (gv_whole g)" by (simp add: gv_front_def lo)
  show "gv_v g = take s (drop (2 * a) (gv_whole g))" by (simp add: gv_v_def lo hi)
  show "gv_back g = drop (2 * a + s) (gv_whole g)" by (simp add: gv_back_def hi)
qed

lemma all_set_drop_conv:
  "(\<forall>v \<in> set (drop k xs). P v) \<longleftrightarrow> (\<forall>p. k \<le> p \<and> p < length xs \<longrightarrow> P (xs ! p))"
proof
  assume h: "\<forall>v \<in> set (drop k xs). P v"
  show "\<forall>p. k \<le> p \<and> p < length xs \<longrightarrow> P (xs ! p)"
  proof (intro allI impI)
    fix p assume p: "k \<le> p \<and> p < length xs"
    then have "drop k xs ! (p - k) \<in> set (drop k xs)" by (intro nth_mem) auto
    with p h show "P (xs ! p)" by simp
  qed
next
  assume h: "\<forall>p. k \<le> p \<and> p < length xs \<longrightarrow> P (xs ! p)"
  show "\<forall>v \<in> set (drop k xs). P v"
    using h by (auto simp: all_set_conv_all_nth [of "drop k xs"])
qed

lemma all_set_take_conv:
  "k \<le> length xs \<Longrightarrow> (\<forall>v \<in> set (take k xs). P v) \<longleftrightarrow> (\<forall>p < k. P (xs ! p))"
  by (simp add: all_set_conv_all_nth)

lemma footprint_iff:
  assumes "0 < (a::nat)" "1 \<le> n"
  shows "(\<exists>i < n. p = 2 * a + i * a) \<longleftrightarrow>
         (2 * a \<le> p \<and> (p - 2 * a) mod a = 0 \<and> p - 2 * a < (n - 1) * a + 1)"
proof -
  have "(\<exists>i < n. p = 2 * a + i * a) \<longleftrightarrow>
        (2 * a \<le> p \<and> (p - 2 * a) mod a = 0 \<and> (p - 2 * a) div a < n)"
  proof
    assume "\<exists>i < n. p = 2 * a + i * a"
    then obtain i where "i < n" "p = 2 * a + i * a" by blast
    with assms(1) show "2 * a \<le> p \<and> (p - 2 * a) mod a = 0 \<and> (p - 2 * a) div a < n" by simp
  next
    assume h: "2 * a \<le> p \<and> (p - 2 * a) mod a = 0 \<and> (p - 2 * a) div a < n"
    then have "p = 2 * a + ((p - 2 * a) div a) * a"
      using div_mult_mod_eq [of "p - 2 * a" a] by simp
    with h show "\<exists>i < n. p = 2 * a + i * a" by blast
  qed
  then show ?thesis using stride_slot_iff [OF assms, of "p - 2 * a"] by auto
qed

lemma layout_nth:
  assumes "0 < (a::nat)" "p < length w"
  shows "strided_put w (2 * a) a 0 data ! p =
     (if \<exists>i < length data. p = 2 * a + i * a then data ! ((p - 2 * a) div a) else w ! p)"
proof -
  have "(2 * a \<le> p \<and> (p - 2 * a) mod a = 0 \<and> (p - 2 * a) div a < length data) \<longleftrightarrow>
        (\<exists>i < length data. p = 2 * a + i * a)"
  proof
    assume h: "2 * a \<le> p \<and> (p - 2 * a) mod a = 0 \<and> (p - 2 * a) div a < length data"
    then have "p = 2 * a + ((p - 2 * a) div a) * a"
      using div_mult_mod_eq [of "p - 2 * a" a] by simp
    with h show "\<exists>i < length data. p = 2 * a + i * a" by blast
  qed (use assms(1) in auto)
  then show ?thesis using nth_strided_put [OF assms, of "2 * a" 0 data] by auto
qed

lemma guarded_ranges:
  "(\<forall>p < s + 4 * (a::nat). Q p) \<longleftrightarrow>
   (\<forall>p < 2 * a. Q p) \<and> (\<forall>i < s. Q (2 * a + i)) \<and> (\<forall>p. 2 * a + s \<le> p \<and> p < s + 4 * a \<longrightarrow> Q p)"
  (is "?l \<longleftrightarrow> ?r")
proof
  assume ?r
  show ?l
  proof (intro allI impI)
    fix p assume "p < s + 4 * a"
    show "Q p"
    proof (cases "p < 2 * a")
      case False
      show ?thesis
      proof (cases "p < 2 * a + s")
        case True
        then have "p - 2 * a < s" using False by linarith
        with \<open>?r\<close> have "Q (2 * a + (p - 2 * a))" by blast
        with False show ?thesis by simp
      qed (use \<open>?r\<close> \<open>p < s + 4 * a\<close> in auto)
    qed (use \<open>?r\<close> in auto)
  qed
qed auto

lemma footprint_mid:
  assumes "0 < (a::nat)" "1 \<le> n" "i < (n - 1) * a + 1"
  shows "(\<exists>k < n. i = k * a) \<longleftrightarrow> i mod a = 0"
  using footprint_iff [OF assms(1,2), of "2 * a + i"] assms(3) by simp

lemma footprint_back:
  assumes "0 < (a::nat)" "1 \<le> n" "2 * a + ((n - 1) * a + 1) \<le> p"
  shows "\<not> (\<exists>k < n. p = 2 * a + k * a)"
  using footprint_iff [OF assms(1,2), of p] assms(3) by auto

lemma footprint_front: "p < 2 * (a::nat) \<Longrightarrow> \<not> (\<exists>k < n. p = 2 * a + k * a)"
  by auto

lemmas footprint_lemmas = footprint_mid footprint_back footprint_front

text \<open>The buffer \<open>newGuardedVector\<close> builds, with its views, for a nonzero stride.\<close>

lemma newGuardedVector_Inr:
  assumes "newGuardedVector data inc = Inr g" "inc \<noteq> 0" "data \<noteq> []"
  defines "a \<equiv> nat \<bar>inc\<bar>" and "s \<equiv> (length data - 1) * nat \<bar>inc\<bar> + 1"
  shows "gv_whole g = strided_put (replicate (s + 4 * a) NaN) (2 * a) a 0 data"
    and "gv_lo g = 2 * int a" and "gv_hi g = int (s + 4 * a) - 2 * int a"
  using assms(1) newGuardedVector_eq [OF assms(2,3)]
  by (auto simp: a_def s_def guarded_len_def)

lemma gv_views_upd:
  assumes "gv_lo g = 2 * int a" "gv_hi g = int (s + 4 * a) - 2 * int a"
  shows "gv_front (g\<lparr>gv_whole := w\<rparr>) = take (2 * a) w"
    and "gv_v (g\<lparr>gv_whole := w\<rparr>) = take s (drop (2 * a) w)"
    and "gv_back (g\<lparr>gv_whole := w\<rparr>) = drop (2 * a + s) w"
  using gv_views [of "g\<lparr>gv_whole := w\<rparr>" a s] assms by simp_all

lemma guard_checks_split:
  assumes "newGuardedVector data inc = Inr g" "inc \<noteq> 0" "data \<noteq> []"
    and "length w' = length (gv_whole g)"
  defines "a \<equiv> nat \<bar>inc\<bar>" and "s \<equiv> (length data - 1) * nat \<bar>inc\<bar> + 1"
  shows "length w' = s + 4 * a"
    and "(allNaN (gv_front (g\<lparr>gv_whole := w'\<rparr>)) \<and> allNaN (gv_back (g\<lparr>gv_whole := w'\<rparr>)) \<and>
          nonStridedWrite (gv_v (g\<lparr>gv_whole := w'\<rparr>)) inc = Inr False)
     \<longleftrightarrow> (\<forall>p < 2 * a. is_nan (w' ! p)) \<and> (\<forall>i < s. i mod a \<noteq> 0 \<longrightarrow> is_nan (w' ! (2 * a + i))) \<and>
         (\<forall>p. 2 * a + s \<le> p \<and> p < s + 4 * a \<longrightarrow> is_nan (w' ! p))"
proof -
  note g = newGuardedVector_Inr [OF assms(1-3), folded a_def s_def]
  show len: "length w' = s + 4 * a" using assms(4) g(1) by simp
  note v = gv_views_upd [OF g(2,3), of w']
  have front: "allNaN (take (2 * a) w') \<longleftrightarrow> (\<forall>p < 2 * a. is_nan (w' ! p))"
    using len by (simp add: allNaN_iff all_set_take_conv)
  have bk: "allNaN (drop (2 * a + s) w') \<longleftrightarrow> (\<forall>p. 2 * a + s \<le> p \<and> p < s + 4 * a \<longrightarrow> is_nan (w' ! p))"
    using len by (simp add: allNaN_iff all_set_drop_conv)
  have mid: "nonStridedWrite (take s (drop (2 * a) w')) inc = Inr False \<longleftrightarrow>
             (\<forall>i < s. i mod a \<noteq> 0 \<longrightarrow> is_nan (w' ! (2 * a + i)))"
    using len assms(2) by (auto simp: nonStridedWrite_eq a_def)
  show "(allNaN (gv_front (g\<lparr>gv_whole := w'\<rparr>)) \<and> allNaN (gv_back (g\<lparr>gv_whole := w'\<rparr>)) \<and>
          nonStridedWrite (gv_v (g\<lparr>gv_whole := w'\<rparr>)) inc = Inr False)
     \<longleftrightarrow> (\<forall>p < 2 * a. is_nan (w' ! p)) \<and> (\<forall>i < s. i mod a \<noteq> 0 \<longrightarrow> is_nan (w' ! (2 * a + i))) \<and>
         (\<forall>p. 2 * a + s \<le> p \<and> p < s + 4 * a \<longrightarrow> is_nan (w' ! p))"
    unfolding v front bk mid by blast
qed

text \<open>
  Claim C3 (exact detection).  Take the buffer \<open>newGuardedVector\<close> builds for a
  non-empty \<open>data\<close> and a non-zero stride, and let a kernel overwrite the backing
  array arbitrarily (same length).  The three checks the kernel tests run afterwards,
  \<open>allNaN\<close> on both guards and \<open>nonStridedWrite\<close> on the vector, all pass exactly
  when every non-NaN slot of the array lies on the strided footprint
  \<open>2|inc| + i|inc|\<close>, \<open>i < len(data)\<close>.  So a kernel confined to its footprint is never
  reported, and every non-NaN write outside it is.
\<close>

theorem guard_checks_exact:
  assumes "newGuardedVector data inc = Inr g" "inc \<noteq> 0" "data \<noteq> []"
    and "length w' = length (gv_whole g)"
  shows "(allNaN (gv_front (g\<lparr>gv_whole := w'\<rparr>)) \<and> allNaN (gv_back (g\<lparr>gv_whole := w'\<rparr>)) \<and>
          nonStridedWrite (gv_v (g\<lparr>gv_whole := w'\<rparr>)) inc = Inr False)
     \<longleftrightarrow> (\<forall>p < length w'. \<not> is_nan (w' ! p) \<longrightarrow>
            (\<exists>i < length data. p = 2 * nat \<bar>inc\<bar> + i * nat \<bar>inc\<bar>))"
proof -
  define a where "a = nat \<bar>inc\<bar>"
  define n where "n = length data"
  define s where "s = (n - 1) * a + 1"
  have a: "0 < a" using assms(2) by (simp add: a_def)
  have n: "1 \<le> n" using assms(3) by (cases data) (auto simp: n_def)
  note split = guard_checks_split [OF assms, folded a_def n_def, folded s_def]
  have rhs: "(\<forall>p < s + 4 * a. \<not> is_nan (w' ! p) \<longrightarrow> (\<exists>i < n. p = 2 * a + i * a)) \<longleftrightarrow>
             (\<forall>p < 2 * a. is_nan (w' ! p)) \<and> (\<forall>i < s. i mod a \<noteq> 0 \<longrightarrow> is_nan (w' ! (2 * a + i))) \<and>
             (\<forall>p. 2 * a + s \<le> p \<and> p < s + 4 * a \<longrightarrow> is_nan (w' ! p))"
    unfolding guarded_ranges using a n by (auto simp: s_def footprint_lemmas)
  show ?thesis
    unfolding split(2) split(1) rhs [symmetric] by (simp add: a_def n_def)
qed

text \<open>
  Claim C5 (self-consistency).  For a non-empty \<open>data\<close> and a non-zero stride,
  \<open>newGuardedVector\<close> returns without panicking, the strided vector holds \<open>data\<close>
  at the stride positions (\<open>equalStrided\<close> is true), both guards are all NaN, and no
  non-stride slot of the vector has been written (\<open>nonStridedWrite\<close> is false).
\<close>

theorem newGuardedVector_self_check:
  assumes "inc \<noteq> 0" "data \<noteq> []"
  shows "\<exists>g. newGuardedVector data inc = Inr g \<and> equalStrided data (gv_v g) inc = Inr True \<and>
             allNaN (gv_front g) \<and> allNaN (gv_back g) \<and> nonStridedWrite (gv_v g) inc = Inr False"
proof -
  define a where "a = nat \<bar>inc\<bar>"
  define n where "n = length data"
  define s where "s = (n - 1) * a + 1"
  have a: "0 < a" using assms(1) by (simp add: a_def)
  have n: "1 \<le> n" using assms(2) by (cases data) (auto simp: n_def)
  obtain g where eq: "newGuardedVector data inc = Inr g"
    using newGuardedVector_eq [OF assms] by blast
  note g = newGuardedVector_Inr [OF eq assms, folded a_def n_def, folded s_def]
  let ?w = "gv_whole g"
  have lenw: "length ?w = s + 4 * a" using g(1) by simp
  have at: "?w ! (2 * a + i * a) = data ! i" if "i < n" for i
  proof -
    have "i * a \<le> (n - 1) * a" using that by (intro mult_right_mono) auto
    then have "2 * a + i * a < length (replicate (s + 4 * a) NaN)"
      unfolding length_replicate s_def by linarith
    from layout_nth [OF a this, of data] have
      "strided_put (replicate (s + 4 * a) NaN) (2 * a) a 0 data ! (2 * a + i * a) = data ! i"
      using that a by (auto simp: n_def)
    then show ?thesis using g(1) by simp
  qed
  have off: "is_nan (?w ! p)" if "p < s + 4 * a" "\<not> (\<exists>i < n. p = 2 * a + i * a)" for p
  proof -
    have "p < length (replicate (s + 4 * a) NaN)" using that(1) by simp
    from layout_nth [OF a this, of data] show ?thesis using g(1) that by (auto simp: n_def)
  qed
  have checks: "allNaN (gv_front g) \<and> allNaN (gv_back g) \<and> nonStridedWrite (gv_v g) inc = Inr False"
  proof -
    have "(\<forall>p < 2 * a. is_nan (?w ! p)) \<and> (\<forall>i < s. i mod a \<noteq> 0 \<longrightarrow> is_nan (?w ! (2 * a + i))) \<and>
          (\<forall>p. 2 * a + s \<le> p \<and> p < s + 4 * a \<longrightarrow> is_nan (?w ! p))"
    proof (intro conjI allI impI)
      fix p assume "p < 2 * a"
      then show "is_nan (?w ! p)" by (intro off) (auto simp: s_def)
    next
      fix i assume i: "i < s" and m: "i mod a \<noteq> 0"
      have "\<not> (\<exists>k < n. i = k * a)" using footprint_mid [OF a n, of i] i m by (simp add: s_def)
      then show "is_nan (?w ! (2 * a + i))" using i by (intro off) auto
    next
      fix p assume "2 * a + s \<le> p \<and> p < s + 4 * a"
      then show "is_nan (?w ! p)" using footprint_back [OF a n, of p] by (intro off) (auto simp: s_def)
    qed
    then show ?thesis
      using guard_checks_split (2) [OF eq assms refl, folded a_def n_def, folded s_def] by simp
  qed
  have vv: "gv_v g = take s (drop (2 * a) ?w)" using gv_views (2) [OF g(2,3)] .
  have es: "equalStrided data (gv_v g) inc = Inr True"
  proof -
    have "(n - 1) * a < length (gv_v g)" using vv lenw by (simp add: s_def)
    then have "equalStrided data (gv_v g) inc = Inr (\<forall>i < n. same (gv_v g ! (i * a)) (data ! i))"
      using equalStrided_eq [of data inc "gv_v g"] by (simp add: a_def n_def)
    moreover have "gv_v g ! (i * a) = data ! i" if "i < n" for i
    proof -
      have "i * a \<le> (n - 1) * a" using that by (intro mult_right_mono) auto
      then have "i * a < s" unfolding s_def by linarith
      then show ?thesis using vv lenw at [OF that] by (simp add: add.commute)
    qed
    ultimately show ?thesis by simp
  qed
  show ?thesis using eq es checks by blast
qed

text \<open>
  Claim C11 (error path).  For an empty \<open>data\<close> and a stride of magnitude at least 2,
  \<open>newGuardedVector\<close> panics: \<open>size = (0-1)*inc + 1\<close> is negative and the slice
  \<open>whole[guard : len(whole)-guard]\<close> has its low bound above its high bound.
\<close>

theorem newGuardedVector_empty_panics:
  assumes "2 \<le> \<bar>inc\<bar>"
  shows "newGuardedVector [] inc = Inl SliceBoundsOutOfRange"
proof -
  have "\<not> 2 * \<bar>inc\<bar> \<le> (- \<bar>inc\<bar> + 1 + 2 * (2 * \<bar>inc\<bar>)) - 2 * \<bar>inc\<bar>" using assms by linarith
  moreover have "0 \<le> - \<bar>inc\<bar> + 1 + 2 * (2 * \<bar>inc\<bar>)" by linarith
  ultimately show ?thesis
    by (simp add: newGuardedVector_def Let_def abs_if_int go_make_def go_slice_def)
qed

text \<open>
  Claim C20 (type).  For non-empty data and a non-zero stride, \<open>newGuardedVector\<close>
  returns well-formed views: a vector of \<open>(len(data)-1)*|inc|+1\<close> slots between two
  guards of \<open>2*|inc|\<close> slots each.
\<close>

theorem newGuardedVector_wf:
  assumes "inc \<noteq> 0" "data \<noteq> []"
  shows "\<exists>g. newGuardedVector data inc = Inr g \<and> gvec_wf g \<and>
           length (gv_v g) = (length data - 1) * nat \<bar>inc\<bar> + 1 \<and>
           length (gv_front g) = 2 * nat \<bar>inc\<bar> \<and> length (gv_back g) = 2 * nat \<bar>inc\<bar>"
proof -
  define a where "a = nat \<bar>inc\<bar>"
  define sz where "sz = (length data - 1) * nat \<bar>inc\<bar> + 1"
  obtain g where g: "newGuardedVector data inc = Inr g"
    using newGuardedVector_eq [OF assms] by blast
  note r = newGuardedVector_Inr [OF g assms]
  have lw: "length (gv_whole g) = sz + 4 * a" using r(1) by (simp add: a_def sz_def)
  have "gvec_wf g" using r(2,3) lw by (simp add: gvec_wf_def a_def sz_def)
  moreover have "length (gv_v g) = sz" "length (gv_front g) = 2 * a" "length (gv_back g) = 2 * a"
    using gv_views [OF r(2,3)] lw by (simp_all add: a_def sz_def)
  ultimately show ?thesis using g by (simp add: a_def sz_def)
qed

section \<open>Witnesses\<close>

theorem guard_checks_exact_witness:
  "newGuardedVector [Fin 1] 1 = Inr \<lparr>gv_whole = [NaN, NaN, Fin 1, NaN, NaN], gv_lo = 2, gv_hi = 3\<rparr> \<and>
   (1::int) \<noteq> 0 \<and> [Fin 1] \<noteq> [] \<and>
   length [NaN, NaN, Fin 1, NaN, Fin 7] = length [NaN, NaN, Fin 1, NaN, NaN] \<and>
   \<not> (allNaN (gv_back \<lparr>gv_whole = [NaN, NaN, Fin 1, NaN, Fin 7], gv_lo = 2, gv_hi = 3\<rparr>))"
proof -
  have g: "newGuardedVector [Fin 1] 1 = Inr \<lparr>gv_whole = [NaN, NaN, Fin 1, NaN, NaN], gv_lo = 2, gv_hi = 3\<rparr>"
    by code_simp
  have "\<not> (\<forall>p < length [NaN, NaN, Fin 1, NaN, Fin 7]. \<not> is_nan ([NaN, NaN, Fin 1, NaN, Fin 7] ! p) \<longrightarrow>
            (\<exists>i < length [Fin 1]. p = 2 * nat \<bar>1::int\<bar> + i * nat \<bar>1::int\<bar>))"
    by (auto intro: exI [of _ 4])
  with guard_checks_exact [OF g, of "[NaN, NaN, Fin 1, NaN, Fin 7]"] g show ?thesis
    by (simp add: gv_back_def)
qed

theorem newGuardedVector_self_check_witness:
  "(3::int) \<noteq> 0 \<and> [Fin 1, Fin 2, Fin 3] \<noteq> [] \<and>
   (\<exists>g. newGuardedVector [Fin 1, Fin 2, Fin 3] 3 = Inr g \<and>
        equalStrided [Fin 1, Fin 2, Fin 3] (gv_v g) 3 = Inr True \<and>
        allNaN (gv_front g) \<and> allNaN (gv_back g) \<and> nonStridedWrite (gv_v g) 3 = Inr False)"
  using newGuardedVector_self_check [of 3 "[Fin 1, Fin 2, Fin 3]"] by simp

theorem newGuardedVector_empty_panics_witness:
  "2 \<le> \<bar>-3::int\<bar> \<and> newGuardedVector [] (-3) = Inl SliceBoundsOutOfRange"
  using newGuardedVector_empty_panics [of "-3"] by simp

theorem newGuardedVector_wf_witness:
  "\<exists>g. newGuardedVector [Fin 1, Fin 2, Fin 3] (-3) = Inr g \<and> gvec_wf g \<and>
       length (gv_v g) = 7 \<and> length (gv_front g) = 6 \<and> length (gv_back g) = 6"
  using newGuardedVector_wf [of "-3" "[Fin 1, Fin 2, Fin 3]"] by simp

end
