(* ===== verification/IncGuards.thy ===== *)
theory IncGuards
  imports Guarded
begin

text \<open>
  The fixed-length and incremented guards of \<open>src/internal/asm/f64/asm_test.go\<close>:
  \<open>guardVector\<close> and \<open>isValidGuard\<close> (a copy of the data between two guards of a
  fixed value), \<open>guardIncVector\<close> (the data at a stride, every other slot a guard)
  and its validator \<open>checkValidIncGuard\<close>, whose \<open>t.Errorf\<close> reports are the
  \<open>violation\<close> values it returns.
\<close>

definition guardVector :: "f64 list \<Rightarrow> f64 \<Rightarrow> int \<Rightarrow> f64 list go" where
  "guardVector vec gdVal gdLn =
     go_bind (go_make (int (length vec) + gdLn * 2) (Fin 0)) (\<lambda>guarded.
     go_bind (go_slice guarded gdLn (int (length guarded))) (\<lambda>dst.
     go_fold (\<lambda>i g. go_bind (go_store g i gdVal) (\<lambda>g. go_store g (int (length g) - 1 - i) gdVal))
       (go_range gdLn) (take (nat gdLn) guarded @ go_copy dst vec)))"

definition isValidGuard :: "f64 list \<Rightarrow> f64 \<Rightarrow> int \<Rightarrow> bool go" where
  "isValidGuard vec gdVal gdLn =
     go_find (\<lambda>i. go_bind (go_index vec i) (\<lambda>a.
                  if \<not> same a gdVal then Inr (Some False)
                  else go_bind (go_index vec (int (length vec) - 1 - i)) (\<lambda>b.
                    Inr (if \<not> same b gdVal then Some False else None))))
       (go_range gdLn) True"

definition guardIncVector :: "f64 list \<Rightarrow> f64 \<Rightarrow> int \<Rightarrow> int \<Rightarrow> f64 list go" where
  "guardIncVector vec gdVal inc0 gdLen =
     (let inc = (if inc0 < 0 then - inc0 else inc0);
          inrLen = int (length vec) * inc
      in go_bind (go_make (inrLen + gdLen * 2) (Fin 0)) (\<lambda>guarded.
         go_bind (go_fold (\<lambda>i g. go_store g i gdVal) (go_range (int (length guarded))) guarded) (\<lambda>guarded.
         go_fold (\<lambda>(i, v) g. go_store g (gdLen + int i * inc) v) (enumerate 0 vec) guarded)))"

datatype violation =
    FrontGuardViolated int "f64 list"
  | BackGuardViolated int "f64 list"
  | InternalGuardViolated int "f64 list"

definition incGuardReport :: "f64 list \<Rightarrow> int \<Rightarrow> int \<Rightarrow> int \<Rightarrow> violation list go" where
  "incGuardReport vec gdLen srcLn i =
     (if i < gdLen then go_bind (go_slice vec 0 gdLen) (\<lambda>ctx. Inr [FrontGuardViolated i ctx])
      else if i > gdLen + srcLn then
        go_bind (go_slice vec (gdLen + srcLn) (int (length vec)))
          (\<lambda>ctx. Inr [BackGuardViolated (i - gdLen - srcLn) ctx])
      else go_bind (go_slice vec gdLen (gdLen + srcLn))
          (\<lambda>ctx. Inr [InternalGuardViolated (i - gdLen) ctx]))"

definition checkValidIncGuard :: "f64 list \<Rightarrow> f64 \<Rightarrow> int \<Rightarrow> int \<Rightarrow> violation list go" where
  "checkValidIncGuard vec gdVal inc gdLen =
     (let srcLn = int (length vec) - 2 * gdLen
      in go_emit (\<lambda>i. go_bind (go_index vec i) (\<lambda>x.
            if same x gdVal then Inr []
            else go_bind (go_mod (i - gdLen) inc) (\<lambda>r.
              if r = 0 then go_bind (go_div (i - gdLen) inc) (\<lambda>q.
                 if q < int (length vec) then Inr [] else incGuardReport vec gdLen srcLn i)
              else incGuardReport vec gdLen srcLn i)))
         (go_range (int (length vec))))"

section \<open>Lemmas\<close>

lemma guardVector_loop:
  assumes "j \<le> k" "length base = n + 2 * k"
  shows "go_fold (\<lambda>i g. go_bind (go_store g i v) (\<lambda>g. go_store g (int (length g) - 1 - i) v))
           (map int [0..<j]) base =
         Inr (map (\<lambda>p. if p < j \<or> n + 2 * k - j \<le> p then v else base ! p) [0..<n + 2 * k])"
  using assms(1)
proof (induction j)
  case 0
  show ?case using assms(2) by simp (intro nth_equalityI; simp)
next
  case (Suc j)
  let ?f = "\<lambda>j p. if p < j \<or> n + 2 * k - j \<le> p then v else base ! p"
  let ?L = "n + 2 * k"
  have r: "map int [0..<Suc j] = map int [0..<j] @ [int j]" by simp
  have step: "go_bind (go_store (map (?f j) [0..<?L]) (int j) v)
                (\<lambda>g. go_store g (int (length g) - 1 - int j) v) =
              Inr (map (?f (Suc j)) [0..<?L])"
  proof -
    have lt: "j < ?L" "?L - 1 - j < ?L" using Suc.prems by simp_all
    have e: "nat (int n + 2 * int k - 1 - int j) = ?L - 1 - j" using Suc.prems by simp
    have "(map (?f j) [0..<?L])[j := v, ?L - 1 - j := v] = map (?f (Suc j)) [0..<?L]"
      using Suc.prems by (intro nth_equalityI) (auto simp: nth_list_update)
    then show ?thesis using lt by (simp add: go_store_def e)
  qed
  show ?case using Suc by (simp only: r go_fold_append) (simp add: step)
qed

lemma guardVector_eq:
  assumes "0 \<le> gdLn"
  shows "guardVector vec gdVal gdLn =
           Inr (replicate (nat gdLn) gdVal @ vec @ replicate (nat gdLn) gdVal)"
proof -
  define k where "k = nat gdLn"
  let ?n = "length vec"
  have gk: "gdLn = int k" using assms by (simp add: k_def)
  have mk: "go_make (int ?n + int k * 2) (Fin 0) = Inr (replicate (?n + 2 * k) (Fin 0))"
    by (simp add: go_make_def nat_add_distrib)
  have sl: "go_slice (replicate (?n + 2 * k) (Fin 0)) (int k) (int (length (replicate (?n + 2 * k) (Fin 0)))) =
            Inr (replicate (?n + k) (Fin 0))"
    by (simp add: go_slice_def)
  have base: "take k (replicate (?n + 2 * k) (Fin 0)) @ go_copy (replicate (?n + k) (Fin 0)) vec =
              replicate k (Fin 0) @ vec @ replicate k (Fin 0)"
    by (simp add: go_copy_def min_def)
  let ?base = "replicate k (Fin 0) @ vec @ replicate k (Fin 0)"
  have loop: "go_fold (\<lambda>i g. go_bind (go_store g i gdVal) (\<lambda>g. go_store g (int (length g) - 1 - i) gdVal))
                (map int [0..<k]) ?base =
              Inr (map (\<lambda>p. if p < k \<or> ?n + 2 * k - k \<le> p then gdVal else ?base ! p) [0..<?n + 2 * k])"
    by (rule guardVector_loop) simp_all
  have fin: "map (\<lambda>p. if p < k \<or> ?n + 2 * k - k \<le> p then gdVal else ?base ! p) [0..<?n + 2 * k] =
             replicate k gdVal @ vec @ replicate k gdVal"
    by (intro nth_equalityI) (auto simp: nth_append)
  show ?thesis
    unfolding guardVector_def gk
    by (simp only: mk sl go_bind_Inr base go_range_def nat_int loop fin)
qed

lemma isValidGuard_eq:
  assumes "nat gdLn \<le> length vec"
  shows "isValidGuard vec gdVal gdLn =
           Inr (\<forall>i < nat gdLn. same (vec ! i) gdVal \<and> same (vec ! (length vec - 1 - i)) gdVal)"
proof -
  let ?n = "length vec"
  let ?P = "\<lambda>x. \<not> (same (vec ! nat x) gdVal \<and> same (vec ! (?n - 1 - nat x)) gdVal)"
  have body: "\<forall>x \<in> set (go_range gdLn).
      go_bind (go_index vec x) (\<lambda>a. if \<not> same a gdVal then Inr (Some False)
         else go_bind (go_index vec (int ?n - 1 - x)) (\<lambda>b. Inr (if \<not> same b gdVal then Some False else None))) =
      Inr (if ?P x then Some False else None)"
  proof
    fix x assume "x \<in> set (go_range gdLn)"
    then have x: "0 \<le> x" "x < gdLn" by auto
    with assms have lt: "nat x < ?n" by linarith
    then have e: "nat (int ?n - 1 - x) = ?n - 1 - nat x" using x by linarith
    have lt': "x < int ?n" using lt x by linarith
    show "go_bind (go_index vec x) (\<lambda>a. if \<not> same a gdVal then Inr (Some False)
         else go_bind (go_index vec (int ?n - 1 - x)) (\<lambda>b. Inr (if \<not> same b gdVal then Some False else None))) =
      Inr (if ?P x then Some False else None)"
      using x lt lt' by (simp add: go_index_def e)
  qed
  have "isValidGuard vec gdVal gdLn = Inr (if \<exists>x \<in> set (go_range gdLn). ?P x then False else \<not> False)"
    unfolding isValidGuard_def using go_find_flag [OF body] by simp
  moreover have "(\<exists>x \<in> set (go_range gdLn). ?P x) \<longleftrightarrow>
                 \<not> (\<forall>i < nat gdLn. same (vec ! i) gdVal \<and> same (vec ! (?n - 1 - i)) gdVal)"
  proof
    assume "\<exists>x \<in> set (go_range gdLn). ?P x"
    then obtain x where x0: "0 \<le> x" and xl: "x < gdLn" and px: "?P x" by auto
    show "\<not> (\<forall>i < nat gdLn. same (vec ! i) gdVal \<and> same (vec ! (?n - 1 - i)) gdVal)"
    proof
      assume "\<forall>i < nat gdLn. same (vec ! i) gdVal \<and> same (vec ! (?n - 1 - i)) gdVal"
      moreover have "nat x < nat gdLn" using x0 xl by simp
      ultimately show False using px by blast
    qed
  next
    assume "\<not> (\<forall>i < nat gdLn. same (vec ! i) gdVal \<and> same (vec ! (?n - 1 - i)) gdVal)"
    then obtain i where "i < nat gdLn" "?P (int i)" by auto
    then show "\<exists>x \<in> set (go_range gdLn). ?P x" by (intro bexI [of _ "int i"]) auto
  qed
  ultimately show ?thesis by simp
qed

text \<open>
  Claim C10 (round trip).  For a non-negative guard length, \<open>isValidGuard\<close> accepts
  the buffer \<open>guardVector\<close> returns.
\<close>

theorem guardVector_roundtrip:
  assumes "0 \<le> gdLn"
  shows "go_bind (guardVector vec gdVal gdLn) (\<lambda>guarded. isValidGuard guarded gdVal gdLn) = Inr True"
proof -
  let ?g = "replicate (nat gdLn) gdVal @ vec @ replicate (nat gdLn) gdVal"
  have "isValidGuard ?g gdVal gdLn = Inr True"
    by (subst isValidGuard_eq) (auto simp: nth_append)
  then show ?thesis using guardVector_eq [OF assms] by simp
qed

lemma incGuardReport_not_Nil: "incGuardReport vec gdLen srcLn i \<noteq> Inr []"
  by (auto simp: incGuardReport_def go_bind_def go_slice_def split: sum.splits)

lemma checkValidIncGuard_Nil_iff:
  assumes "inc \<noteq> 0"
  shows "checkValidIncGuard w gdVal inc gdLen = Inr [] \<longleftrightarrow>
         (\<forall>i < length w. \<not> same (w ! i) gdVal \<longrightarrow>
            inc dvd (int i - gdLen) \<and> (int i - gdLen) sdiv inc < int (length w))"
proof -
  let ?srcLn = "int (length w) - 2 * gdLen"
  have body: "go_bind (go_index w (int i)) (\<lambda>x.
            if same x gdVal then Inr []
            else go_bind (go_mod (int i - gdLen) inc) (\<lambda>r.
              if r = 0 then go_bind (go_div (int i - gdLen) inc) (\<lambda>q.
                 if q < int (length w) then Inr [] else incGuardReport w gdLen ?srcLn (int i))
              else incGuardReport w gdLen ?srcLn (int i))) = Inr [] \<longleftrightarrow>
      (\<not> same (w ! i) gdVal \<longrightarrow> inc dvd (int i - gdLen) \<and> (int i - gdLen) sdiv inc < int (length w))"
    if "i < length w" for i
    using that assms incGuardReport_not_Nil by (simp add: go_index_def go_mod_def go_div_def)
  show ?thesis
    unfolding checkValidIncGuard_def Let_def go_emit_Nil_iff go_range_def nat_int
    using body by auto
qed

lemma sdiv_pos_le: "0 < (b::int) \<Longrightarrow> a sdiv b \<le> max 0 a"
proof (cases "0 \<le> a")
  case True
  then show ?thesis using sdiv_int_range [of a b] by simp
next
  case False
  assume b: "0 < b"
  show ?thesis
  proof (cases "a sdiv b = 0")
    case False
    then have "sgn (a sdiv b) = sgn (a * b)" by (rule sgn_sdiv_eq_sgn_mult)
    also have "\<dots> = -1" using \<open>\<not> 0 \<le> a\<close> b by (simp add: sgn_mult)
    finally show ?thesis by (simp add: sgn_if split: if_splits)
  qed simp
qed

text \<open>
  Claim C4.  For a positive stride and a non-negative guard length,
  \<open>checkValidIncGuard\<close> reports nothing exactly when every slot that differs from
  the sentinel lies at an offset from \<open>gdLen\<close> that is a multiple of \<open>inc\<close>.  Its
  second \<open>case\<close> (\<open>(i-gdLen)%inc == 0 && (i-gdLen)/inc < len(vec)\<close>) skips such slots
  anywhere in the buffer, the guards included: the quotient bound compares with the
  length of the whole guarded buffer, which it never reaches.  Writes to the guard
  slots \<open>gdLen - k inc\<close> and \<open>gdLen + (n + k) inc\<close> (the first back-guard slot
  among them) go unreported.
\<close>

theorem checkValidIncGuard_silent_iff:
  assumes "0 < inc" "0 \<le> gdLen"
  shows "checkValidIncGuard w gdVal inc gdLen = Inr [] \<longleftrightarrow>
         (\<forall>i < length w. \<not> same (w ! i) gdVal \<longrightarrow> inc dvd (int i - gdLen))"
proof -
  have "(int i - gdLen) sdiv inc < int (length w)" if "i < length w" for i
  proof -
    have "(int i - gdLen) sdiv inc \<le> max 0 (int i - gdLen)" using assms(1) by (rule sdiv_pos_le)
    then show ?thesis using that assms(2) by linarith
  qed
  then show ?thesis using checkValidIncGuard_Nil_iff [of inc w gdVal gdLen] assms(1) by auto
qed

lemma guardIncVector_eq:
  assumes "inc \<noteq> 0" "0 \<le> gdLen"
  shows "guardIncVector vec gdVal inc gdLen =
           Inr (strided_put (replicate (length vec * nat \<bar>inc\<bar> + 2 * nat gdLen) gdVal)
                  (nat gdLen) (nat \<bar>inc\<bar>) 0 vec)"
proof -
  define a where "a = nat \<bar>inc\<bar>"
  define k where "k = nat gdLen"
  let ?n = "length vec"
  let ?L = "?n * a + 2 * k"
  have ia: "\<bar>inc\<bar> = int a" and a: "0 < a" using assms(1) by (simp_all add: a_def)
  have gk: "gdLen = int k" using assms(2) by (simp add: k_def)
  have mk: "go_make (int ?n * int a + int k * 2) (Fin 0) = Inr (replicate ?L (Fin 0))"
  proof -
    have "int ?n * int a + int k * 2 = int ?L" by simp
    then show ?thesis by (simp only: go_make_int)
  qed
  have fill: "go_fold (\<lambda>i g. go_store g i gdVal) (go_range (int (length (replicate ?L (Fin 0)))))
                (replicate ?L (Fin 0)) = Inr (replicate ?L gdVal)"
    using go_fold_store_fill_all [where w = "replicate ?L (Fin 0)" and x = gdVal] by simp
  have cong: "go_fold (\<lambda>(i, v) g. go_store g (int k + int i * int a) v) (enumerate 0 vec) (replicate ?L gdVal) =
              go_fold (\<lambda>(i, v) g. go_store_view g (int k) (int (?n * a)) (int i * int a) v)
                (enumerate 0 vec) (replicate ?L gdVal)"
  proof (rule go_fold_cong)
    fix x s assume "x \<in> set (enumerate 0 vec)"
    then have "fst x < ?n" by (auto simp: in_set_enumerate_eq)
    then have "int (fst x) * int a < int (?n * a)" using a by simp
    then show "(case x of (i, v) \<Rightarrow> \<lambda>g. go_store g (int k + int i * int a) v) s =
               (case x of (i, v) \<Rightarrow> \<lambda>g. go_store_view g (int k) (int (?n * a)) (int i * int a) v) s"
      by (cases x) (simp add: go_store_view_def)
  qed
  have put: "go_fold (\<lambda>(i, v) g. go_store_view g (int k) (int (?n * a)) (int i * int a) v)
               (enumerate 0 vec) (replicate ?L gdVal) =
             Inr (strided_put (replicate ?L gdVal) (nat (int k)) (nat (int a)) 0 vec)"
  proof (rule go_fold_store_view_strided)
    show "int k + int (?n * a) \<le> int (length (replicate ?L gdVal))" by simp
    show "int (0 + length vec - 1) * int a < int (?n * a)" if "vec \<noteq> []"
    proof -
      have "(?n - 1) * a < ?n * a" using that a by (cases vec) auto
      then show ?thesis by (simp only: of_nat_mult [symmetric]) simp
    qed
  qed (use a in simp_all)
  show ?thesis
    unfolding guardIncVector_def Let_def abs_if_int ia gk
    by (simp only: mk go_bind_Inr fill cong put) (simp add: a_def k_def)
qed

text \<open>
  Claim C6 (no false alarms).  For a non-zero stride (of either sign) and a
  non-negative guard length, \<open>checkValidIncGuard\<close> reports nothing on the buffer
  \<open>guardIncVector\<close> has just built.
\<close>

theorem guardIncVector_check_silent:
  assumes "inc \<noteq> 0" "0 \<le> gdLen"
  shows "go_bind (guardIncVector vec gdVal inc gdLen) (\<lambda>w. checkValidIncGuard w gdVal inc gdLen) = Inr []"
proof -
  define a where "a = nat \<bar>inc\<bar>"
  define k where "k = nat gdLen"
  let ?n = "length vec"
  let ?L = "?n * a + 2 * k"
  let ?w = "strided_put (replicate ?L gdVal) k a 0 vec"
  have a: "0 < a" and ia: "\<bar>inc\<bar> = int a" using assms(1) by (simp_all add: a_def)
  have gk: "gdLen = int k" using assms(2) by (simp add: k_def)
  have ok: "\<not> same (?w ! i) gdVal \<longrightarrow> inc dvd (int i - gdLen) \<and> (int i - gdLen) sdiv inc < int ?L"
    if i: "i < ?L" for i
  proof
    assume ns: "\<not> same (?w ! i) gdVal"
    let ?q = "(i - k) div a"
    let ?C = "k \<le> i \<and> (i - k) mod a = 0 \<and> ?q < ?n"
    have nth: "?w ! i = (if ?C then vec ! (?q - 0) else gdVal)"
      using nth_strided_put [OF a, of i "replicate ?L gdVal" k 0 vec] i by simp
    have slot: ?C
    proof (rule ccontr)
      assume "\<not> ?C"
      with nth have "?w ! i = gdVal" by simp
      with ns show False by simp
    qed
    have "i - k = ?q * a" using div_mult_mod_eq [of "i - k" a] slot by simp
    then have d: "int i - gdLen = int (?q * a)" using slot gk by (simp add: of_nat_diff)
    have "\<bar>inc\<bar> dvd int (?q * a)" unfolding ia by simp
    then have dv: "inc dvd int (?q * a)" by (simp only: abs_dvd_iff)
    have "?q * a \<le> (?n - 1) * a" using slot by (intro mult_right_mono) auto
    also have "\<dots> < ?L" using slot a by (cases ?n) auto
    finally have lt: "int (?q * a) < int ?L" by (simp only: of_nat_less_iff)
    have "int (?q * a) sdiv inc \<le> int (?q * a)"
      using sdiv_int_range [of "int (?q * a)" inc] by simp
    with lt have "int (?q * a) sdiv inc < int ?L" by linarith
    with d dv show "inc dvd (int i - gdLen) \<and> (int i - gdLen) sdiv inc < int ?L" by simp
  qed
  have "checkValidIncGuard ?w gdVal inc gdLen = Inr []"
    using checkValidIncGuard_Nil_iff [OF assms(1), of ?w gdVal gdLen] ok by simp
  then show ?thesis using guardIncVector_eq [OF assms] by (simp add: a_def k_def)
qed

section \<open>Witnesses\<close>

theorem checkValidIncGuard_silent_iff_witness:
  "guardIncVector [Fin 1] NaN 2 2 = Inr [NaN, NaN, Fin 1, NaN, NaN, NaN] \<and>
   checkValidIncGuard [NaN, NaN, Fin 1, NaN, Fin 9, NaN] NaN 2 2 = Inr [] \<and>
   checkValidIncGuard [NaN, NaN, Fin 1, Fin 9, NaN, NaN] NaN 2 2 \<noteq> Inr []"
proof -
  have a: "guardIncVector [Fin 1] NaN 2 2 = Inr [NaN, NaN, Fin 1, NaN, NaN, NaN]" by code_simp
  have b: "checkValidIncGuard [NaN, NaN, Fin 1, NaN, Fin 9, NaN] NaN 2 2 = Inr []"
    using checkValidIncGuard_silent_iff [of 2 2 "[NaN, NaN, Fin 1, NaN, Fin 9, NaN]" NaN]
    by (simp add: less_Suc_eq nth_Cons')
  have c: "checkValidIncGuard [NaN, NaN, Fin 1, Fin 9, NaN, NaN] NaN 2 2 \<noteq> Inr []"
    using checkValidIncGuard_silent_iff [of 2 2 "[NaN, NaN, Fin 1, Fin 9, NaN, NaN]" NaN]
    by (auto simp: less_Suc_eq nth_Cons' intro!: exI [of _ 3])
  show ?thesis using a b c by blast
qed

theorem guardIncVector_check_silent_witness:
  "(3::int) \<noteq> 0 \<and> (0::int) \<le> 4 \<and>
   go_bind (guardIncVector [Fin 1, Fin 2, Fin 3] NaN 3 4)
     (\<lambda>w. checkValidIncGuard w NaN 3 4) = Inr []"
  using guardIncVector_check_silent [of 3 4 "[Fin 1, Fin 2, Fin 3]" NaN] by simp

theorem guardVector_roundtrip_witness:
  "(0::int) \<le> 2 \<and>
   go_bind (guardVector [Fin 1, NaN] (Fin 42) 2) (\<lambda>g. isValidGuard g (Fin 42) 2) = Inr True"
  using guardVector_roundtrip [of 2 "[Fin 1, NaN]" "Fin 42"] by simp

end
