(* ===== verification/IncSets.thy ===== *)
theory IncSets
  imports Go_Prelude
begin

text \<open>
  The increment and alignment sets of \<open>src/internal/asm/f64/asm_test.go\<close>:
  \<open>newIncSet\<close> and \<open>newIncToSet\<close> build, by nested loops writing into a slice made
  with \<open>make\<close>, every pair and every triple of the given increments.  The theorems
  show that the loops fill the slice in row-major order, so the result is the
  lexicographic Cartesian product (\<open>List.product\<close>), with \<open>n^2\<close> and \<open>n^3\<close>
  entries and no panic for any input.
\<close>

record incSet =
  incSet_x :: int
  incSet_y :: int

record incToSet =
  incToSet_dst :: int
  incToSet_x :: int
  incToSet_y :: int

definition newIncSet :: "int list \<Rightarrow> incSet list go" where
  "newIncSet inc =
     (let n = int (length inc)
      in go_bind (go_make (n * n) \<lparr>incSet_x = 0, incSet_y = 0\<rparr>) (\<lambda>is.
         go_fold (\<lambda>x is. go_fold (\<lambda>y is.
             go_bind (go_index inc x) (\<lambda>ix. go_bind (go_index inc y) (\<lambda>iy.
               go_store is (x * n + y) \<lparr>incSet_x = ix, incSet_y = iy\<rparr>)))
           (go_range n) is) (go_range n) is))"

definition newIncToSet :: "int list \<Rightarrow> incToSet list go" where
  "newIncToSet inc =
     (let n = int (length inc)
      in go_bind (go_make (n * n * n) \<lparr>incToSet_dst = 0, incToSet_x = 0, incToSet_y = 0\<rparr>) (\<lambda>is.
         go_fold (\<lambda>(i, dst) is. go_fold (\<lambda>x is. go_fold (\<lambda>y is.
             go_bind (go_index inc x) (\<lambda>ix. go_bind (go_index inc y) (\<lambda>iy.
               go_store is (int i * n * n + x * n + y)
                 \<lparr>incToSet_dst = dst, incToSet_x = ix, incToSet_y = iy\<rparr>)))
           (go_range n) is) (go_range n) is) (enumerate 0 inc) is))"

text \<open>The package-level alignment sets (\<open>align1\<close>, \<open>align2\<close>, \<open>align3\<close>).\<close>

definition align1 :: "int list" where
  "align1 = [0, 1]"

definition align2 :: "incSet list go" where
  "align2 = newIncSet [0, 1]"

definition align3 :: "incToSet list go" where
  "align3 = newIncToSet [0, 1]"

text \<open>
  Claim C14 (equivalence).  \<open>newIncSet inc\<close> never panics and returns the pairs
  \<open>(inc[x], inc[y])\<close> in lexicographic order: entry \<open>x*n + y\<close> is \<open>{inc[x], inc[y]}\<close>,
  which is \<open>List.product inc inc\<close>.
\<close>

theorem newIncSet_product:
  "newIncSet inc = Inr (map (\<lambda>(a, b). \<lparr>incSet_x = a, incSet_y = b\<rparr>) (List.product inc inc))"
proof -
  let ?n = "length inc"
  let ?t = "map (\<lambda>(a, b). \<lparr>incSet_x = a, incSet_y = b\<rparr>) (List.product inc inc)"
  let ?z = "replicate (?n * ?n) \<lparr>incSet_x = 0, incSet_y = 0\<rparr>"
  let ?inner = "\<lambda>x y is. go_bind (go_index inc x) (\<lambda>ix. go_bind (go_index inc y) (\<lambda>iy.
               go_store is (x * int ?n + y) \<lparr>incSet_x = ix, incSet_y = iy\<rparr>))"
  have lz: "length ?z = length ?t" by simp
  have cell: "?inner (int x) (int y) (fill_prefix ?t ?z (x * ?n + y * 1)) =
              Inr (fill_prefix ?t ?z (x * ?n + Suc y * 1))"
    if x: "x < ?n" and y: "y < ?n" for x y
  proof -
    have k: "x * ?n + y < length ?t" using row_index_bound [OF x y] by simp
    have v: "\<lparr>incSet_x = inc ! x, incSet_y = inc ! y\<rparr> = ?t ! (x * ?n + y)"
      using k product_nth_row [OF x y] by simp
    have "go_store (fill_prefix ?t ?z (x * ?n + y)) (int (x * ?n + y))
            \<lparr>incSet_x = inc ! x, incSet_y = inc ! y\<rparr> = Inr (fill_prefix ?t ?z (Suc (x * ?n + y)))"
      using go_store_fill_prefix [OF k lz v] .
    then show ?thesis using x y by (simp add: go_index_def)
  qed
  have row: "go_fold (?inner (int x)) (map int [0..<?n]) (fill_prefix ?t ?z (0 + x * ?n)) =
             Inr (fill_prefix ?t ?z (0 + Suc x * ?n))"
    if x: "x < ?n" for x
    using go_fold_fill_steps [of ?n "?inner (int x)" int ?t ?z "x * ?n" 1] cell [OF x]
    by (simp add: add.commute)
  have "go_fold (\<lambda>x is. go_fold (?inner x) (map int [0..<?n]) is) (map int [0..<?n]) (fill_prefix ?t ?z 0) =
        Inr (fill_prefix ?t ?z (0 + ?n * ?n))"
    by (rule go_fold_fill_steps) (use row in simp)
  then have main: "go_fold (\<lambda>x is. go_fold (?inner x) (map int [0..<?n]) is) (map int [0..<?n]) ?z = Inr ?t"
    using lz by (simp add: fill_prefix_def)
  have mk: "go_make (int ?n * int ?n) \<lparr>incSet_x = 0, incSet_y = 0\<rparr> = Inr ?z"
    by (simp add: go_make_def nat_mult_distrib)
  have rg: "go_range (int ?n) = map int [0..<?n]" by (simp add: go_range_def)
  show ?thesis
    unfolding newIncSet_def Let_def mk go_bind_Inr rg main ..
qed


text \<open>
  Claim C15 (equivalence).  \<open>newIncToSet inc\<close> never panics and returns the triples
  \<open>(inc[i], inc[x], inc[y])\<close> in lexicographic order, entry \<open>i*n*n + x*n + y\<close>:
  the threefold product of \<open>inc\<close>.
\<close>

theorem newIncToSet_product:
  "newIncToSet inc = Inr (map (\<lambda>(d, a, b). \<lparr>incToSet_dst = d, incToSet_x = a, incToSet_y = b\<rparr>)
                             (List.product inc (List.product inc inc)))"
proof -
  let ?n = "length inc"
  let ?t = "map (\<lambda>(d, a, b). \<lparr>incToSet_dst = d, incToSet_x = a, incToSet_y = b\<rparr>)
              (List.product inc (List.product inc inc))"
  let ?z = "replicate (?n * ?n * ?n) \<lparr>incToSet_dst = 0, incToSet_x = 0, incToSet_y = 0\<rparr>"
  let ?inner = "\<lambda>i dst x y is. go_bind (go_index inc x) (\<lambda>ix. go_bind (go_index inc y) (\<lambda>iy.
               go_store is (int i * int ?n * int ?n + x * int ?n + y)
                 \<lparr>incToSet_dst = dst, incToSet_x = ix, incToSet_y = iy\<rparr>))"
  have lz: "length ?z = length ?t" by simp
  have cell: "?inner i (inc ! i) (int x) (int y) (fill_prefix ?t ?z ((i * ?n * ?n + x * ?n) + y * 1)) =
              Inr (fill_prefix ?t ?z ((i * ?n * ?n + x * ?n) + Suc y * 1))"
    if i: "i < ?n" and x: "x < ?n" and y: "y < ?n" for i x y
  proof -
    have xy: "x * ?n + y < length (List.product inc inc)" using row_index_bound [OF x y] by simp
    have pos: "i * length (List.product inc inc) + (x * ?n + y) = i * ?n * ?n + x * ?n + y" by simp
    have k: "i * ?n * ?n + x * ?n + y < length ?t"
      using row_index_bound [OF i xy] by simp
    have "List.product inc (List.product inc inc) ! (i * ?n * ?n + x * ?n + y) = (inc ! i, inc ! x, inc ! y)"
      using product_nth_row [OF i xy] product_nth_row [OF x y] by (simp only: pos)
    then have v: "\<lparr>incToSet_dst = inc ! i, incToSet_x = inc ! x, incToSet_y = inc ! y\<rparr> =
                  ?t ! (i * ?n * ?n + x * ?n + y)"
      using k by simp
    have "go_store (fill_prefix ?t ?z (i * ?n * ?n + x * ?n + y)) (int (i * ?n * ?n + x * ?n + y))
            \<lparr>incToSet_dst = inc ! i, incToSet_x = inc ! x, incToSet_y = inc ! y\<rparr> =
          Inr (fill_prefix ?t ?z (Suc (i * ?n * ?n + x * ?n + y)))"
      using go_store_fill_prefix [OF k lz v] .
    then show ?thesis using x y by (simp add: go_index_def)
  qed
  have mid: "go_fold (?inner i (inc ! i) (int x)) (map int [0..<?n]) (fill_prefix ?t ?z (i * ?n * ?n + x * ?n)) =
             Inr (fill_prefix ?t ?z (i * ?n * ?n + Suc x * ?n))"
    if i: "i < ?n" and x: "x < ?n" for i x
    using go_fold_fill_steps [of ?n "?inner i (inc ! i) (int x)" int ?t ?z "i * ?n * ?n + x * ?n" 1]
      cell [OF i x] by (simp add: algebra_simps)
  have outer: "go_fold (\<lambda>x is. go_fold (?inner i (inc ! i) x) (map int [0..<?n]) is) (map int [0..<?n])
                 (fill_prefix ?t ?z (0 + i * (?n * ?n))) = Inr (fill_prefix ?t ?z (0 + Suc i * (?n * ?n)))"
    if i: "i < ?n" for i
    using go_fold_fill_steps [of ?n "\<lambda>x is. go_fold (?inner i (inc ! i) x) (map int [0..<?n]) is" int
        ?t ?z "i * ?n * ?n" ?n] mid [OF i] by (simp add: algebra_simps)
  have "go_fold (\<lambda>(i, dst) is. go_fold (\<lambda>x is. go_fold (?inner i dst x) (map int [0..<?n]) is) (map int [0..<?n]) is)
          (map (\<lambda>i. (i, inc ! i)) [0..<?n]) (fill_prefix ?t ?z 0) = Inr (fill_prefix ?t ?z (0 + ?n * (?n * ?n)))"
    by (rule go_fold_fill_steps) (use outer in simp)
  then have main: "go_fold (\<lambda>(i, dst) is. go_fold (\<lambda>x is. go_fold (?inner i dst x) (map int [0..<?n]) is) (map int [0..<?n]) is)
          (enumerate 0 inc) ?z = Inr ?t"
    using lz by (simp add: fill_prefix_def enumerate_0_map mult.assoc)
  have mk: "go_make (int ?n * int ?n * int ?n) \<lparr>incToSet_dst = 0, incToSet_x = 0, incToSet_y = 0\<rparr> = Inr ?z"
  proof -
    have "int ?n * int ?n * int ?n = int (?n * ?n * ?n)" by simp
    then show ?thesis by (simp only: go_make_int)
  qed
  have rg: "go_range (int ?n) = map int [0..<?n]" by (simp add: go_range_def)
  show ?thesis
    unfolding newIncToSet_def Let_def mk go_bind_Inr rg main ..
qed

end
