(* ===== verification/Blas.thy ===== *)
theory Blas
  imports Scalar
begin

text \<open>
  The dense-matrix capability the Dlasr cross-check calls: \<open>blas64.General\<close> (row-major
  data with a stride) and \<open>blas64.Gemm\<close> without transposes.  Both live outside this
  repository and are modelled from the spec (section 6: \<open>C = alpha*A*B + beta*C\<close> on
  row-major matrices with explicit rows, columns and stride).  A malformed operand or a
  shape mismatch is a panic.
\<close>

record general =
  rows :: int
  cols :: int
  stride :: int
  gdata :: "real list"

definition gat :: "general \<Rightarrow> int \<Rightarrow> int \<Rightarrow> real" where
  "gat g i j = gdata g ! nat (i * stride g + j)"

definition general_ok :: "general \<Rightarrow> bool" where
  "general_ok g = (0 \<le> rows g \<and> 0 \<le> cols g \<and> 1 \<le> stride g \<and> cols g \<le> stride g \<and>
                   (rows g - 1) * stride g + cols g \<le> int (length (gdata g)))"

definition gemm :: "real \<Rightarrow> general \<Rightarrow> general \<Rightarrow> real \<Rightarrow> general \<Rightarrow> general go" where
  "gemm alpha a b beta c =
     (if \<not> (general_ok a \<and> general_ok b \<and> general_ok c) \<or>
         cols a \<noteq> rows b \<or> rows a \<noteq> rows c \<or> cols b \<noteq> cols c
      then Inl BadShape
      else Inr (c\<lparr>gdata := map (\<lambda>p.
               let i = int p div stride c; j = int p mod stride c
               in if i < rows c \<and> j < cols c
                  then alpha * (\<Sum>l \<leftarrow> map int [0..<nat (cols a)]. gat a i l * gat b l j) + beta * gdata c ! p
                  else gdata c ! p)
             [0..<length (gdata c)]\<rparr>))"


text \<open>The abstract view: a general matrix as its entries inside the window.\<close>

definition mat_of :: "general \<Rightarrow> nat \<Rightarrow> nat \<Rightarrow> real" where
  "mat_of g i j = gat g (int i) (int j)"

text \<open>
  Abstract square matrices of order \<open>n\<close> as functions of row and column: the
  identity and the product, a sum over the inner index.
\<close>

definition ident :: "nat \<Rightarrow> nat \<Rightarrow> real" where
  "ident i j = (if i = j then 1 else 0)"

definition mmul :: "nat \<Rightarrow> (nat \<Rightarrow> nat \<Rightarrow> real) \<Rightarrow> (nat \<Rightarrow> nat \<Rightarrow> real) \<Rightarrow> nat \<Rightarrow> nat \<Rightarrow> real" where
  "mmul n A B i j = (\<Sum>l \<leftarrow> [0..<n]. A i l * B l j)"

section \<open>Lemmas\<close>

lemma general_ok_index:
  assumes "general_ok g" "0 \<le> i" "i < rows g" "0 \<le> j" "j < cols g"
  shows "0 \<le> i * stride g + j" "i * stride g + j < int (length (gdata g))"
proof -
  have s: "1 \<le> stride g" "cols g \<le> stride g" "(rows g - 1) * stride g + cols g \<le> int (length (gdata g))"
    using assms(1) by (auto simp: general_ok_def)
  show "0 \<le> i * stride g + j" using s assms by simp
  have "i * stride g \<le> (rows g - 1) * stride g" using s assms by (intro mult_right_mono) auto
  then show "i * stride g + j < int (length (gdata g))" using s assms by linarith
qed

lemma window_pos:
  assumes "0 \<le> i" "0 \<le> j" "j < s" 
  shows "(i * s + j) div s = i" "(i * s + j) mod s = (j::int)"
  using assms by (simp_all add: add.commute)


lemma gat_zero:
  assumes "general_ok g" "gdata g = replicate L 0" "0 \<le> i" "i < rows g" "0 \<le> j" "j < cols g"
  shows "gat g i j = 0"
  using general_ok_index [OF assms(1,3-6)] assms(2) by (simp add: gat_def)

lemma gemm_zero_window:
  assumes ok: "general_ok a" "general_ok b" "general_ok c"
    and shape: "cols a = rows b" "rows a = rows c" "cols b = cols c"
    and zc: "gdata c = replicate L 0"
    and zs: "\<And>i j. 0 \<le> i \<Longrightarrow> i < rows c \<Longrightarrow> 0 \<le> j \<Longrightarrow> j < cols c \<Longrightarrow>
               (\<Sum>l \<leftarrow> map int [0..<nat (cols a)]. gat a i l * gat b l j) = 0"
  shows "gemm alpha a b beta c = Inr c"
proof -
  have st: "0 < stride c" using ok(3) by (simp add: general_ok_def)
  have "map (\<lambda>p. let i = int p div stride c; j = int p mod stride c
               in if i < rows c \<and> j < cols c
                  then alpha * (\<Sum>l \<leftarrow> map int [0..<nat (cols a)]. gat a i l * gat b l j) + beta * gdata c ! p
                  else gdata c ! p) [0..<length (gdata c)] = gdata c"
  proof (rule nth_equalityI)
    fix p assume "p < length (map (\<lambda>p. let i = int p div stride c; j = int p mod stride c
               in if i < rows c \<and> j < cols c
                  then alpha * (\<Sum>l \<leftarrow> map int [0..<nat (cols a)]. gat a i l * gat b l j) + beta * gdata c ! p
                  else gdata c ! p) [0..<length (gdata c)])"
    then have p: "p < length (gdata c)" by simp
    have nn: "0 \<le> int p div stride c" "0 \<le> int p mod stride c" using st by (simp_all add: pos_imp_zdiv_nonneg_iff)
    show "map (\<lambda>p. let i = int p div stride c; j = int p mod stride c
               in if i < rows c \<and> j < cols c
                  then alpha * (\<Sum>l \<leftarrow> map int [0..<nat (cols a)]. gat a i l * gat b l j) + beta * gdata c ! p
                  else gdata c ! p) [0..<length (gdata c)] ! p = gdata c ! p"
      using p zs [OF nn(1) _ nn(2)] zc by (simp add: Let_def)
  qed simp
  then show ?thesis using ok shape by (simp add: gemm_def)
qed

lemma sum_zero_left:
  "(\<And>l. l \<in> set ls \<Longrightarrow> f l = 0) \<Longrightarrow> (\<Sum>l \<leftarrow> ls. f l * g l) = (0::real)"
  by (induction ls) simp_all

lemma sum_zero_right:
  "(\<And>l. l \<in> set ls \<Longrightarrow> g l = 0) \<Longrightarrow> (\<Sum>l \<leftarrow> ls. f l * g l) = (0::real)"
  by (induction ls) simp_all


lemma gemm_Inr:
  assumes "general_ok a" "general_ok b" "general_ok c"
    and "cols a = rows b" "rows a = rows c" "cols b = cols c"
  shows "\<exists>c'. gemm alpha a b beta c = Inr c' \<and> rows c' = rows c \<and> cols c' = cols c \<and>
              stride c' = stride c \<and> length (gdata c') = length (gdata c)"
  using assms by (simp add: gemm_def)


lemma gemm_result:
  assumes "general_ok a" "general_ok b" "general_ok c"
    and "cols a = rows b" "rows a = rows c" "cols b = cols c"
  shows "gemm alpha a b beta c = Inr (c\<lparr>gdata := map (\<lambda>p. let i = int p div stride c; j = int p mod stride c
           in if i < rows c \<and> j < cols c
              then alpha * (\<Sum>l \<leftarrow> map int [0..<nat (cols a)]. gat a i l * gat b l j) + beta * gdata c ! p
              else gdata c ! p) [0..<length (gdata c)]\<rparr>)"
  using assms by (simp add: gemm_def)

text \<open>
  Refinement: inside the window of \<open>c\<close> the entries of the result are
  \<open>alpha * (A B) + beta * C\<close>; the padding between rows is left as it was.
\<close>

lemma gemm_refines:
  assumes ok: "general_ok a" "general_ok b" "general_ok c"
    and shape: "cols a = rows b" "rows a = rows c" "cols b = cols c"
    and ij: "int i < rows c" "int j < cols c"
    and r: "gemm alpha a b beta c = Inr r"
  shows "mat_of r i j = alpha * (\<Sum>l \<leftarrow> [0..<nat (cols a)]. mat_of a i l * mat_of b l j) + beta * mat_of c i j"
proof -
  have st: "0 < stride c" "int j < stride c" using ok(3) ij by (auto simp: general_ok_def)
  define p where "p = nat (int i * stride c + int j)"
  have p: "int p = int i * stride c + int j" "p < length (gdata c)"
    using general_ok_index [OF ok(3), of "int i" "int j"] ij by (simp_all add: p_def)
  have dm: "int p div stride c = int i" "int p mod stride c = int j"
    using window_pos [of "int i" "int j" "stride c"] st p(1) by simp_all
  have sums: "(\<Sum>l \<leftarrow> map int [0..<nat (cols a)]. gat a (int i) l * gat b l (int j)) =
              (\<Sum>l \<leftarrow> [0..<nat (cols a)]. mat_of a i l * mat_of b l j)"
    by (simp add: mat_of_def comp_def)
  have "gdata r ! p = alpha * (\<Sum>l \<leftarrow> [0..<nat (cols a)]. mat_of a i l * mat_of b l j) + beta * gdata c ! p"
    using r gemm_result [OF ok shape, of alpha beta] p(2) dm ij sums by (auto simp: Let_def)
  moreover have "stride r = stride c" using r gemm_result [OF ok shape, of alpha beta] by auto
  ultimately show ?thesis by (simp add: mat_of_def gat_def p_def)
qed


lemma sum_upt_support:
  assumes "S \<subseteq> {0..<n}" "\<And>l. l < n \<Longrightarrow> l \<notin> S \<Longrightarrow> f l = 0"
  shows "(\<Sum>l \<leftarrow> [0..<n]. f l) = (\<Sum>l \<in> S. f l :: real)"
proof -
  have "(\<Sum>l \<leftarrow> [0..<n]. f l) = (\<Sum>l \<in> {0..<n}. f l)"
    by (simp add: sum_list_distinct_conv_sum_set)
  also have "\<dots> = (\<Sum>l \<in> S. f l)"
    using assms by (intro sum.mono_neutral_right) auto
  finally show ?thesis .
qed

lemma sum_upt_one:
  "a < n \<Longrightarrow> (\<And>l. l < n \<Longrightarrow> l \<noteq> a \<Longrightarrow> f l = 0) \<Longrightarrow> (\<Sum>l \<leftarrow> [0..<n]. f l) = (f a :: real)"
  using sum_upt_support [of "{a}" n f] by simp

lemma sum_upt_two:
  "a < n \<Longrightarrow> b < n \<Longrightarrow> a \<noteq> b \<Longrightarrow> (\<And>l. l < n \<Longrightarrow> l \<noteq> a \<Longrightarrow> l \<noteq> b \<Longrightarrow> f l = 0) \<Longrightarrow>
   (\<Sum>l \<leftarrow> [0..<n]. f l) = (f a + f b :: real)"
  using sum_upt_support [of "{a, b}" n f] by simp


lemma sum_upt_cong:
  "(\<And>l. l < n \<Longrightarrow> f l = g l) \<Longrightarrow> (\<Sum>l \<leftarrow> [0..<n]. f l) = (\<Sum>l \<leftarrow> [0..<n]. g l :: real)"
  by (rule arg_cong [where f = sum_list], rule map_cong) auto


lemma mat_of_stride:
  "stride g = int n \<Longrightarrow> mat_of g i j = gdata g ! (i * n + j)"
  by (simp add: mat_of_def gat_def)

end
