(* ===== verification/Rand.thy ===== *)
theory Rand
  imports Complex_Main Go_Prelude
begin

text \<open>
  The seeded generator of \<open>math/rand/v2\<close> (\<open>rand.New(rand.NewPCG(1, 1))\<close>), shared by
  the Dlasr cross-check and the ChiSquared tests.  It lives outside the repository and is
  modelled from the spec (section 6: uniform values in \<open>[0,1)\<close>, deterministic and
  restartable): the state is the stream of values \<open>rng_draw\<close> and the position
  \<open>rng_pos\<close> of the next one; \<open>Float64\<close> returns the value at the position and advances
  it.  The lemmas read a run of consecutive draws as a prefix of the stream.
\<close>

record rng =
  rng_draw :: "nat \<Rightarrow> real"
  rng_pos :: nat

definition rng_float64 :: "rng \<Rightarrow> real \<times> rng" where
  "rng_float64 r = (rng_draw r (rng_pos r), r\<lparr>rng_pos := Suc (rng_pos r)\<rparr>)"

definition rng_stream :: "rng \<Rightarrow> nat \<Rightarrow> real list" where
  "rng_stream rnd L = map (\<lambda>i. rng_draw rnd (rng_pos rnd + i)) [0..<L]"

text \<open>\<open>for i := range x { x[i] = r.Float64() }\<close>: fill a slice with consecutive draws.\<close>

definition fill_random :: "real list \<Rightarrow> rng \<Rightarrow> (real list \<times> rng) go" where
  "fill_random a rnd =
     go_fold (\<lambda>i (a, rnd). let (x, rnd) = rng_float64 rnd in go_bind (go_store a i x) (\<lambda>a. Inr (a, rnd)))
       (go_range (int (length a))) (a, rnd)"

section \<open>Lemmas\<close>

lemma rng_float64_shift:
  "rng_float64 (rnd\<lparr>rng_pos := rng_pos rnd + k\<rparr>) =
     (rng_draw rnd (rng_pos rnd + k), rnd\<lparr>rng_pos := rng_pos rnd + Suc k\<rparr>)"
  by (simp add: rng_float64_def)

lemma length_rng_stream [simp]: "length (rng_stream rnd L) = L"
  by (simp add: rng_stream_def)

lemma nth_rng_stream [simp]: "i < L \<Longrightarrow> rng_stream rnd L ! i = rng_draw rnd (rng_pos rnd + i)"
  by (simp add: rng_stream_def)


lemma fill_random_prefix:
  assumes "k \<le> length a"
  shows "go_fold (\<lambda>i (a, rnd). let (x, rnd) = rng_float64 rnd in go_bind (go_store a i x) (\<lambda>a. Inr (a, rnd)))
           (map int [0..<k]) (a, rnd) =
         Inr (fill_prefix (rng_stream rnd (length a)) a k, rnd\<lparr>rng_pos := rng_pos rnd + k\<rparr>)"
  using assms
proof (induction k)
  case 0
  then show ?case by (simp add: fill_prefix_def)
next
  case (Suc k)
  have "go_store (fill_prefix (rng_stream rnd (length a)) a k) (int k) (rng_draw rnd (rng_pos rnd + k)) =
        Inr (fill_prefix (rng_stream rnd (length a)) a (Suc k))"
    using Suc.prems by (intro go_store_fill_prefix) simp_all
  then show ?case using Suc by (simp add: go_fold_append rng_float64_shift)
qed

lemma fill_random_eq:
  "fill_random a rnd = Inr (rng_stream rnd (length a), rnd\<lparr>rng_pos := rng_pos rnd + length a\<rparr>)"
  using fill_random_prefix [of "length a" a rnd]
  by (simp add: fill_random_def go_range_def fill_prefix_def)

end
