(* ===== verification/Dlasr.thy ===== *)
theory Dlasr
  imports Blas Rand
begin

text \<open>
  The Dlasr cross-check of \<open>src/lapack/testlapack/dlasr.go\<close>: the enumeration of
  sides, pivots, directions and shapes (\<open>DlasrTest\<close>), the random matrix and angles
  drawn from the seeded generator, the call of the implementation under test, the
  explicit rotation matrix \<open>P\<close> built with \<open>Gemm\<close>, and the final comparison.
  The implementation is a parameter of type \<open>dlasrer\<close> (the \<open>Dlasrer\<close> interface): it
  receives \<open>c\<close>, \<open>s\<close> and \<open>a\<close> and returns the new contents of the three slices, which
  the trial copies back into them (a callee cannot change the length of the caller's
  slices); the reference is then built from \<open>c\<close> and \<open>s\<close> as the implementation left
  them.  Values are reals: an implementation writing NaN or an infinity into \<open>c\<close> or
  \<open>s\<close> is not representable, so the claims about what the test reports are stated for
  implementations that leave \<open>c\<close> and \<open>s\<close> unchanged.  The generator is the stream
  \<open>rng_draw\<close> read from position \<open>rng_pos\<close>.  The lemmas show that the reference
  computation never panics on the test's shapes and that the comparison is vacuous.
\<close>

datatype side = Left | Right

datatype pivot = Variable | Top | Bottom

datatype direct = Forward | Backward

type_synonym dlasrer =
  "side \<Rightarrow> pivot \<Rightarrow> direct \<Rightarrow> int \<Rightarrow> int \<Rightarrow> real list \<Rightarrow> real list \<Rightarrow> real list \<Rightarrow> int \<Rightarrow>
   (real list \<times> real list \<times> real list) go"

definition random_rotations :: "real list \<Rightarrow> real list \<Rightarrow> rng \<Rightarrow> (real list \<times> real list \<times> rng) go" where
  "random_rotations s c rnd =
     go_fold (\<lambda>k (s, c, rnd).
         let (x, rnd) = rng_float64 rnd; theta = x * 2 * pi
         in go_bind (go_store s k (sin theta)) (\<lambda>s. go_bind (go_store c k (cos theta)) (\<lambda>c. Inr (s, c, rnd))))
       (go_range (int (length s))) (s, c, rnd)"

definition set_identity :: "int \<Rightarrow> int \<Rightarrow> real list \<Rightarrow> real list go" where
  "set_identity pSize st d = go_fold (\<lambda>i d. go_store d (i * st + i) 1) (go_range pSize) d"

definition set_rotation :: "pivot \<Rightarrow> int \<Rightarrow> int \<Rightarrow> int \<Rightarrow> real \<Rightarrow> real \<Rightarrow> real list \<Rightarrow> real list go" where
  "set_rotation pivot pSize st k ck sk d =
     (case pivot of
        Variable \<Rightarrow>
          go_bind (go_store d (k * st + k) ck) (\<lambda>d.
          go_bind (go_store d (k * st + k + 1) sk) (\<lambda>d.
          go_bind (go_store d ((k + 1) * st + k) (- sk)) (\<lambda>d.
          go_store d ((k + 1) * st + k + 1) ck)))
      | Top \<Rightarrow>
          go_bind (go_store d 0 ck) (\<lambda>d.
          go_bind (go_store d (k + 1) sk) (\<lambda>d.
          go_bind (go_store d ((k + 1) * st) (- sk)) (\<lambda>d.
          go_store d ((k + 1) * st + k + 1) ck)))
      | Bottom \<Rightarrow>
          go_bind (go_store d ((pSize - 1 - k) * st + pSize - k - 1) ck) (\<lambda>d.
          go_bind (go_store d ((pSize - 1 - k) * st + pSize - 1) sk) (\<lambda>d.
          go_bind (go_store d ((pSize - 1) * st + pSize - 1 - k) (- sk)) (\<lambda>d.
          go_store d ((pSize - 1) * st + pSize - 1) ck))))"

definition square :: "int \<Rightarrow> general go" where
  "square pSize = go_bind (go_make (pSize * pSize) 0) (\<lambda>d.
     Inr \<lparr>rows = pSize, cols = pSize, stride = pSize, gdata = d\<rparr>)"

text \<open>Lines 106--130: \<open>P_k\<close> is reset to the identity and its four rotation entries are set.\<close>

definition build_pk :: "pivot \<Rightarrow> int \<Rightarrow> int \<Rightarrow> int \<Rightarrow> real list \<Rightarrow> real list \<Rightarrow> int \<Rightarrow>
    real list \<Rightarrow> real list go" where
  "build_pk pivot pSize st plen c s k d =
     go_bind (go_fold (\<lambda>i d. go_store d i 0) (go_range plen) d) (\<lambda>d.
     go_bind (set_identity pSize st d) (\<lambda>d.
     go_bind (go_index c k) (\<lambda>ck. go_bind (go_index s k) (\<lambda>sk.
     set_rotation pivot pSize st k ck sk d))))"

text \<open>One iteration of the loop of lines 105--138.\<close>

definition rotation_step :: "pivot \<Rightarrow> direct \<Rightarrow> int \<Rightarrow> real list \<Rightarrow> real list \<Rightarrow>
    int \<Rightarrow> general \<times> general \<times> general \<Rightarrow> (general \<times> general \<times> general) go" where
  "rotation_step pivot direct pSize c s k = (\<lambda>(p, pk, ptmp).
     go_bind (build_pk pivot pSize (stride p) (int (length (gdata p))) c s k (gdata pk)) (\<lambda>d.
     let pk = pk\<lparr>gdata := d\<rparr> in
     go_bind (if direct = Forward then gemm 1 pk ptmp 0 p else gemm 1 ptmp pk 0 p) (\<lambda>p.
     Inr (p, pk, ptmp\<lparr>gdata := go_copy (gdata ptmp) (gdata p)\<rparr>))))"

definition rotation_product :: "pivot \<Rightarrow> direct \<Rightarrow> int \<Rightarrow> real list \<Rightarrow> real list \<Rightarrow> general go" where
  "rotation_product pivot direct pSize c s =
     go_bind (square pSize) (\<lambda>p. go_bind (square pSize) (\<lambda>pk. go_bind (square pSize) (\<lambda>ptmp.
     go_bind (set_identity pSize (stride p) (gdata p)) (\<lambda>dp.
     go_bind (set_identity pSize (stride p) (gdata ptmp)) (\<lambda>dt.
     go_bind (go_fold (rotation_step pivot direct pSize c s) (go_range (int (length s)))
                (p\<lparr>gdata := dp\<rparr>, pk, ptmp\<lparr>gdata := dt\<rparr>)) (\<lambda>(p, _, _). Inr p))))))"

definition dlasr_trial :: "dlasrer \<Rightarrow> rng \<Rightarrow> side \<Rightarrow> pivot \<Rightarrow> direct \<Rightarrow> int \<times> int \<times> int \<Rightarrow>
    (bool \<times> rng) go" where
  "dlasr_trial impl rnd side pivot direct test =
     (let (m, n, lda0) = test;
          lda = (if lda0 = 0 then n else lda0)
      in go_bind (go_make (m * lda) 0) (\<lambda>a.
         go_bind (fill_random a rnd) (\<lambda>(a, rnd).
         go_bind (go_make (if side = Left then m - 1 else n - 1) 0) (\<lambda>s.
         go_bind (go_make (if side = Left then m - 1 else n - 1) 0) (\<lambda>c.
         go_bind (random_rotations s c rnd) (\<lambda>(s, c, rnd).
         go_bind (go_make (int (length a)) 0) (\<lambda>aCopy.
         let a = go_copy a aCopy in
         go_bind (impl side pivot direct m n c s a lda) (\<lambda>(c', s', a').
         let c = go_copy c c'; s = go_copy s s'; a = go_copy a a';
             pSize = (if side = Right then n else m)
         in go_bind (rotation_product pivot direct pSize c s) (\<lambda>p.
         go_bind (go_make (m * lda) 0) (\<lambda>aData.
         let aMat = \<lparr>rows = m, cols = n, stride = lda, gdata = aData\<rparr>;
             a = go_copy a aCopy
         in go_bind (go_make (m * lda) 0) (\<lambda>newData.
         let newA = \<lparr>rows = m, cols = n, stride = lda, gdata = newData\<rparr>
         in go_bind (if side = Left then gemm 1 p aMat 0 newA else gemm 1 aMat p 0 newA) (\<lambda>newA.
         Inr (\<not> equal_approx (map Fin (gdata newA)) (map Fin a) (1 / 10 ^ 12), rnd)))))))))))))"

text \<open>The shape every matrix of the reference computation keeps: \<open>pSize\<close> by \<open>pSize\<close>, packed.\<close>

definition is_square :: "int \<Rightarrow> general \<Rightarrow> bool" where
  "is_square n g = (rows g = n \<and> cols g = n \<and> stride g = n \<and> length (gdata g) = nat (n * n))"

text \<open>
  The number of generator draws one trial consumes: \<open>len(a) = m*lda\<close> for the matrix
  (lines 46--48) and \<open>len(s)\<close> for the angles (lines 60--65).
\<close>

definition trial_draws :: "side \<Rightarrow> int \<times> int \<times> int \<Rightarrow> nat" where
  "trial_draws side test =
     (let (m, n, lda0) = test
      in nat (m * (if lda0 = 0 then n else lda0)) + nat (if side = Left then m - 1 else n - 1))"

definition dlasr_tests :: "(int \<times> int \<times> int) list" where
  "dlasr_tests = [(5, 5, 0), (5, 10, 0), (10, 5, 0), (5, 5, 20), (5, 10, 20), (10, 5, 20)]"

definition dlasr_configs :: "(side \<times> pivot \<times> direct \<times> (int \<times> int \<times> int)) list" where
  "dlasr_configs = [(sd, pv, dr, t). sd \<leftarrow> [Left, Right], pv \<leftarrow> [Variable, Top, Bottom],
                                     dr \<leftarrow> [Forward, Backward], t \<leftarrow> dlasr_tests]"

definition DlasrTest :: "dlasrer \<Rightarrow> rng \<Rightarrow> (string list \<times> rng) go" where
  "DlasrTest impl rnd =
     go_fold (\<lambda>(side, pivot, direct, test) (errs, rnd).
         go_bind (dlasr_trial impl rnd side pivot direct test) (\<lambda>(mismatch, rnd).
           Inr (if mismatch then errs @ [''A update mismatch''] else errs, rnd)))
       dlasr_configs ([], rnd)"

section \<open>The random inputs\<close>

lemma random_rotations_prefix:
  assumes "k \<le> length s" "length c = length s"
  shows "go_fold (\<lambda>k (s, c, rnd).
             let (x, rnd) = rng_float64 rnd; theta = x * 2 * pi
             in go_bind (go_store s k (sin theta)) (\<lambda>s. go_bind (go_store c k (cos theta)) (\<lambda>c. Inr (s, c, rnd))))
           (map int [0..<k]) (s, c, rnd) =
         Inr (fill_prefix (map (\<lambda>x. sin (x * 2 * pi)) (rng_stream rnd (length s))) s k,
              fill_prefix (map (\<lambda>x. cos (x * 2 * pi)) (rng_stream rnd (length s))) c k,
              rnd\<lparr>rng_pos := rng_pos rnd + k\<rparr>)"
  using assms
proof (induction k)
  case 0
  then show ?case by (simp add: fill_prefix_def)
next
  case (Suc k)
  let ?x = "rng_draw rnd (rng_pos rnd + k)"
  have "go_store (fill_prefix (map (\<lambda>x. sin (x * 2 * pi)) (rng_stream rnd (length s))) s k) (int k)
          (sin (?x * 2 * pi)) =
        Inr (fill_prefix (map (\<lambda>x. sin (x * 2 * pi)) (rng_stream rnd (length s))) s (Suc k))"
    using Suc.prems by (intro go_store_fill_prefix) simp_all
  moreover have "go_store (fill_prefix (map (\<lambda>x. cos (x * 2 * pi)) (rng_stream rnd (length s))) c k) (int k)
          (cos (?x * 2 * pi)) =
        Inr (fill_prefix (map (\<lambda>x. cos (x * 2 * pi)) (rng_stream rnd (length s))) c (Suc k))"
    using Suc.prems by (intro go_store_fill_prefix) simp_all
  ultimately show ?case using Suc by (simp add: go_fold_append rng_float64_shift)
qed

lemma random_rotations_eq:
  "length c = length s \<Longrightarrow>
   random_rotations s c rnd =
     Inr (map (\<lambda>x. sin (x * 2 * pi)) (rng_stream rnd (length s)),
          map (\<lambda>x. cos (x * 2 * pi)) (rng_stream rnd (length s)),
          rnd\<lparr>rng_pos := rng_pos rnd + length s\<rparr>)"
  using random_rotations_prefix [of "length s" s c rnd]
  by (simp add: random_rotations_def go_range_def fill_prefix_def)

section \<open>The reference rotation product is computed without a panic\<close>

lemma go_store_square:
  assumes "length d = nat (n * n)" "e = i * n + j" "0 \<le> i" "i < n" "0 \<le> j" "j < n"
  shows "go_store d e v = Inr (d[nat e := v]) \<and> length (d[nat e := v]) = nat (n * n)"
  using row_major_index [OF assms(3-6)] assms(1,2) by (simp add: go_store_in_range)

lemma set_identity_Inr:
  assumes "length d = nat (n * n)"
  shows "\<exists>d'. set_identity n n d = Inr d' \<and> length d' = nat (n * n)"
  unfolding set_identity_def
proof (rule go_fold_Inr [where P = "\<lambda>d. length d = nat (n * n)"])
  fix x and d' :: "real list"
  assume "x \<in> set (go_range n)" "length d' = nat (n * n)"
  then show "\<exists>d''. go_store d' (x * n + x) 1 = Inr d'' \<and> length d'' = nat (n * n)"
    using go_store_square [of d' n "x * n + x" x x 1] by auto
qed (rule assms)

lemma set_rotation_Inr:
  assumes len: "length d = nat (n * n)" and k: "0 \<le> k" "k + 1 < n"
  shows "\<exists>d'. set_rotation pivot n n k ck sk d = Inr d' \<and> length d' = nat (n * n)"
proof -
  have L: "int (length d) = n * n" using len k by simp
  show ?thesis
  proof (cases pivot)
    case Variable
    have "0 \<le> k * n + k \<and> k * n + k < n * n" "0 \<le> k * n + k + 1 \<and> k * n + k + 1 < n * n"
         "0 \<le> (k + 1) * n + k \<and> (k + 1) * n + k < n * n"
         "0 \<le> (k + 1) * n + k + 1 \<and> (k + 1) * n + k + 1 < n * n"
      using row_major_index [of k n k] row_major_index [of k n "k + 1"] row_major_index [of "k + 1" n k] row_major_index [of "k + 1" n "k + 1"] k
      by (simp_all add: algebra_simps)
    then show ?thesis using Variable len L by (simp add: set_rotation_def go_store_def)
  next
    case Top
    have "0 \<le> k + 1 \<and> k + 1 < n * n" "0 \<le> (k + 1) * n \<and> (k + 1) * n < n * n"
         "0 \<le> (k + 1) * n + k + 1 \<and> (k + 1) * n + k + 1 < n * n" "0 < n * n"
      using row_major_index [of 0 n "k + 1"] row_major_index [of "k + 1" n 0] row_major_index [of "k + 1" n "k + 1"] row_major_index [of 0 n 0] k
      by (simp_all add: algebra_simps)
    then show ?thesis using Top len L by (simp add: set_rotation_def go_store_def)
  next
    case Bottom
    have "0 \<le> (n - 1 - k) * n + n - k - 1 \<and> (n - 1 - k) * n + n - k - 1 < n * n"
         "0 \<le> (n - 1 - k) * n + n - 1 \<and> (n - 1 - k) * n + n - 1 < n * n"
         "0 \<le> (n - 1) * n + n - 1 - k \<and> (n - 1) * n + n - 1 - k < n * n"
         "0 \<le> (n - 1) * n + n - 1 \<and> (n - 1) * n + n - 1 < n * n"
      using row_major_index [of "n - 1 - k" n "n - 1 - k"] row_major_index [of "n - 1 - k" n "n - 1"] row_major_index [of "n - 1" n "n - 1 - k"]
            row_major_index [of "n - 1" n "n - 1"] k
      by (simp_all add: algebra_simps)
    then show ?thesis using Bottom len L by (simp add: set_rotation_def go_store_def)
  qed
qed

lemma is_square_general_ok:
  "1 \<le> n \<Longrightarrow> is_square n g \<Longrightarrow> general_ok g"
  by (simp add: is_square_def general_ok_def algebra_simps)

lemma square_Inr:
  "0 \<le> n \<Longrightarrow> square n = Inr \<lparr>rows = n, cols = n, stride = n, gdata = replicate (nat (n * n)) 0\<rparr>"
  by (simp add: square_def go_make_def)

lemma build_pk_Inr:
  assumes "length d = nat (n * n)" "0 \<le> k" "k + 1 < n" "k < int (length c)" "k < int (length s)"
  shows "\<exists>d'. build_pk pivot n n (int (length d)) c s k d = Inr d' \<and> length d' = nat (n * n)"
proof -
  obtain d1 where d1: "set_identity n n (replicate (length d) 0) = Inr d1" "length d1 = nat (n * n)"
    using set_identity_Inr [of "replicate (length d) (0::real)" n] assms(1) by auto
  obtain d2 where "set_rotation pivot n n k (c ! nat k) (s ! nat k) d1 = Inr d2" "length d2 = nat (n * n)"
    using set_rotation_Inr [OF d1(2) assms(2,3)] by blast
  then show ?thesis
    using d1 assms go_fold_store_fill_all [of 0 d] by (simp add: build_pk_def go_index_def)
qed

lemma rotation_step_Inr:
  assumes n: "1 \<le> n" and k: "k \<in> set (go_range (int (length s)))"
    and len: "int (length s) = n - 1" "length c = length s"
    and sq: "is_square n p" "is_square n pk" "is_square n ptmp"
  shows "\<exists>p' pk' ptmp'. rotation_step pivot direct n c s k (p, pk, ptmp) = Inr (p', pk', ptmp') \<and>
           is_square n p' \<and> is_square n pk' \<and> is_square n ptmp'"
proof -
  have k': "0 \<le> k" "k + 1 < n" "k < int (length c)" "k < int (length s)" using k len by auto
  obtain d2 where d2: "build_pk pivot n n (int (length (gdata p))) c s k (gdata pk) = Inr d2"
    "length d2 = nat (n * n)"
    using build_pk_Inr [OF _ k'(1,2,3,4)] sq by (auto simp: is_square_def)
  have sq2: "is_square n (pk\<lparr>gdata := d2\<rparr>)" using sq(2) d2(2) by (simp add: is_square_def)
  have ok: "general_ok p" "general_ok ptmp" "general_ok (pk\<lparr>gdata := d2\<rparr>)"
    using is_square_general_ok [OF n] sq sq2 by blast+
  have shp: "rows (pk\<lparr>gdata := d2\<rparr>) = rows p" "cols (pk\<lparr>gdata := d2\<rparr>) = rows ptmp"
    "cols ptmp = cols p" "rows ptmp = rows p" "cols (pk\<lparr>gdata := d2\<rparr>) = cols p"
    using sq by (simp_all add: is_square_def)
  obtain pf where pf: "gemm 1 (pk\<lparr>gdata := d2\<rparr>) ptmp 0 p = Inr pf" "is_square n pf"
    using gemm_Inr [OF ok(3) ok(2) ok(1) shp(2,1,3), where alpha = 1 and beta = 0] sq(1)
    by (auto simp: is_square_def)
  obtain pb where pb: "gemm 1 ptmp (pk\<lparr>gdata := d2\<rparr>) 0 p = Inr pb" "is_square n pb"
    using gemm_Inr [OF ok(2) ok(3) ok(1), where alpha = 1 and beta = 0] sq sq2
    by (auto simp: is_square_def)
  obtain p' where p': "(if direct = Forward then gemm 1 (pk\<lparr>gdata := d2\<rparr>) ptmp 0 p
                        else gemm 1 ptmp (pk\<lparr>gdata := d2\<rparr>) 0 p) = Inr p'" "is_square n p'"
    using pf pb by (cases "direct = Forward") auto
  have "rotation_step pivot direct n c s k (p, pk, ptmp) =
          Inr (p', pk\<lparr>gdata := d2\<rparr>, ptmp\<lparr>gdata := go_copy (gdata ptmp) (gdata p')\<rparr>)"
    using d2 p' sq by (simp add: rotation_step_def is_square_def)
  moreover have "is_square n (ptmp\<lparr>gdata := go_copy (gdata ptmp) (gdata p')\<rparr>)"
    using sq(3) by (simp add: is_square_def)
  ultimately show ?thesis using p'(2) sq2 by blast
qed

lemma rotation_product_Inr:
  assumes n: "1 \<le> n" and len: "int (length s) = n - 1" "length c = length s"
  shows "\<exists>p. rotation_product pivot direct n c s = Inr p \<and> is_square n p"
proof -
  let ?z = "\<lparr>rows = n, cols = n, stride = n, gdata = replicate (nat (n * n)) (0::real)\<rparr>"
  have sqz: "is_square n ?z" by (simp add: is_square_def)
  obtain dp where dp: "set_identity n n (replicate (nat (n * n)) 0) = Inr dp" "length dp = nat (n * n)"
    using set_identity_Inr [of "replicate (nat (n * n)) (0::real)" n] by auto
  let ?P = "\<lambda>(p, pk, ptmp). is_square n p \<and> is_square n pk \<and> is_square n ptmp"
  have "\<exists>st. go_fold (rotation_step pivot direct n c s) (go_range (int (length s)))
              (?z\<lparr>gdata := dp\<rparr>, ?z, ?z\<lparr>gdata := dp\<rparr>) = Inr st \<and> ?P st"
  proof (rule go_fold_Inr)
    fix k st assume "k \<in> set (go_range (int (length s)))" "?P st"
    then show "\<exists>st'. rotation_step pivot direct n c s k st = Inr st' \<and> ?P st'"
      using rotation_step_Inr [OF n _ len] by (cases st) fastforce
  qed (use dp sqz in \<open>simp add: is_square_def\<close>)
  then show ?thesis using n dp by (auto simp: rotation_product_def square_Inr)
qed

text \<open>
  After the two \<open>copy(a, aCopy)\<close> calls (lines 67 and 146) the matrix \<open>a\<close> holds only
  zeros, and \<open>aMat\<close> is never filled; both sides of the final comparison are zero.
\<close>

lemma gemm_zero_operands:
  assumes ok: "general_ok a" "general_ok b" "general_ok c"
    and shape: "cols a = rows b" "rows a = rows c" "cols b = cols c"
    and zc: "gdata c = replicate L 0"
    and z: "gdata a = replicate La 0 \<or> gdata b = replicate Lb 0"
  shows "gemm alpha a b beta c = Inr c"
proof (rule gemm_zero_window [OF ok shape zc])
  fix i j assume ij: "0 \<le> i" "i < rows c" "0 \<le> j" "j < cols c"
  show "(\<Sum>l \<leftarrow> map int [0..<nat (cols a)]. gat a i l * gat b l j) = 0"
    using z
  proof
    assume "gdata a = replicate La 0"
    then show ?thesis using ij shape by (intro sum_zero_left) (auto intro: gat_zero [OF ok(1)])
  next
    assume "gdata b = replicate Lb 0"
    then show ?thesis using ij shape by (intro sum_zero_right) (auto intro: gat_zero [OF ok(2)])
  qed
qed

lemma dlasr_trial_no_mismatch:
  assumes m: "1 \<le> m" and n: "1 \<le> n" and lda: "lda0 = 0 \<or> n \<le> lda0"
    and impl: "\<And>c s a. \<exists>a'. impl side pivot direct m n c s a (if lda0 = 0 then n else lda0) = Inr a'"
  shows "dlasr_trial impl rnd side pivot direct (m, n, lda0) =
           Inr (False, rnd\<lparr>rng_pos := rng_pos rnd + trial_draws side (m, n, lda0)\<rparr>)"
proof -
  define ld where "ld = (if lda0 = 0 then n else lda0)"
  define L where "L = nat (m * ld)"
  define sz where "sz = (if side = Left then m - 1 else n - 1)"
  define pSize where "pSize = (if side = Right then n else m)"
  define r1 where "r1 = rnd\<lparr>rng_pos := rng_pos rnd + L\<rparr>"
  define S where "S = map (\<lambda>x. sin (x * 2 * pi)) (rng_stream r1 (nat sz))"
  define C where "C = map (\<lambda>x. cos (x * 2 * pi)) (rng_stream r1 (nat sz))"
  have ld: "n \<le> ld" "1 \<le> ld" using lda n by (auto simp: ld_def)
  have sz: "0 \<le> sz" "int (nat sz) = pSize - 1" using m n by (cases side; simp add: sz_def pSize_def)+
  have L: "int L = m * ld" "0 \<le> m * ld" using m ld by (simp_all add: L_def)
  obtain c' s' a' where a': "impl side pivot direct m n C S (replicate L 0) ld = Inr (c', s', a')"
    using impl [of C S "replicate L 0"] by (auto simp: ld_def)
  obtain p where p: "rotation_product pivot direct pSize (go_copy C c') (go_copy S s') = Inr p" "is_square pSize p"
    using rotation_product_Inr [of pSize "go_copy S s'" "go_copy C c'" pivot direct] m n sz
    by (auto simp: S_def C_def pSize_def)
  let ?zero = "\<lambda>d. \<lparr>rows = m, cols = n, stride = ld, gdata = d\<rparr>"
  have okz: "general_ok (?zero (replicate L 0))"
  proof -
    have "(m - 1) * ld + n \<le> m * ld" using ld by (simp add: algebra_simps)
    then show ?thesis using m n ld L by (simp add: general_ok_def)
  qed
  have okp: "general_ok p" using is_square_general_ok [OF _ p(2)] m n by (simp add: pSize_def)
  have gm: "(if side = Left then gemm 1 p (?zero (replicate L 0)) 0 (?zero (replicate L 0))
             else gemm 1 (?zero (replicate L 0)) p 0 (?zero (replicate L 0))) = Inr (?zero (replicate L 0))"
    using gemm_zero_operands [OF okp okz okz, where L = L and Lb = L]
          gemm_zero_operands [OF okz okp okz, where L = L and La = L] p(2)
    by (cases side) (auto simp: is_square_def pSize_def)
  have ldeq: "(if lda0 = 0 then n else lda0) = ld" and szeq: "(if side = Left then m - 1 else n - 1) = sz"
    and pSeq: "(if side = Right then n else m) = pSize"
    by (simp_all add: ld_def sz_def pSize_def)
  have mk: "go_make (m * ld) 0 = Inr (replicate L 0)" "go_make sz 0 = Inr (replicate (nat sz) 0)"
    "go_make (int (length (rng_stream rnd L))) 0 = Inr (replicate L 0)"
    using L sz by (simp_all add: go_make_def L_def)
  have fr: "fill_random (replicate L 0) rnd = Inr (rng_stream rnd L, r1)"
    by (simp add: fill_random_eq r1_def)
  have rr: "random_rotations (replicate (nat sz) 0) (replicate (nat sz) 0) r1 =
            Inr (S, C, r1\<lparr>rng_pos := rng_pos r1 + nat sz\<rparr>)"
    by (simp add: random_rotations_eq S_def C_def)
  have cp: "go_copy (rng_stream rnd L) (replicate L 0) = replicate L 0"
    "go_copy (go_copy (replicate L 0) a') (replicate L 0) = replicate L 0"
    by simp_all
  have "dlasr_trial impl rnd side pivot direct (m, n, lda0) =
          Inr (\<not> equal_approx (map Fin (replicate L 0)) (map Fin (replicate L 0)) (1 / 10 ^ 12),
               r1\<lparr>rng_pos := rng_pos r1 + nat sz\<rparr>)"
    unfolding dlasr_trial_def Let_def prod.case ldeq szeq pSeq
    by (simp only: mk fr rr go_bind_Inr prod.case cp a' p(1) gm general.select_convs)
  then show ?thesis using equal_approx_refl_Fin [of "1 / 10 ^ 12" "replicate L 0"]
    by (simp add: r1_def trial_draws_def ld_def L_def sz_def)
qed

text \<open>
  The trial prepares its inputs without a panic and then calls the implementation: a
  panic of the implementation is the trial's.
\<close>

lemma dlasr_trial_impl_panics:
  assumes m: "1 \<le> m" and n: "1 \<le> n" and lda: "lda0 = 0 \<or> n \<le> lda0"
    and impl: "\<And>c s a. impl side pivot direct m n c s a (if lda0 = 0 then n else lda0) = Inl e"
  shows "dlasr_trial impl rnd side pivot direct (m, n, lda0) = Inl e"
proof -
  define ld where "ld = (if lda0 = 0 then n else lda0)"
  define L where "L = nat (m * ld)"
  define sz where "sz = (if side = Left then m - 1 else n - 1)"
  define r1 where "r1 = rnd\<lparr>rng_pos := rng_pos rnd + L\<rparr>"
  have ld: "1 \<le> ld" using lda n by (auto simp: ld_def)
  have sz: "0 \<le> sz" using m n by (simp add: sz_def)
  have L: "0 \<le> m * ld" using m ld by simp
  have ldeq: "(if lda0 = 0 then n else lda0) = ld" and szeq: "(if side = Left then m - 1 else n - 1) = sz"
    by (simp_all add: ld_def sz_def)
  have mk: "go_make (m * ld) 0 = Inr (replicate L 0)" "go_make sz 0 = Inr (replicate (nat sz) 0)"
    "go_make (int (length (rng_stream rnd L))) 0 = Inr (replicate L 0)"
    using L sz by (simp_all add: go_make_def L_def)
  have fr: "fill_random (replicate L 0) rnd = Inr (rng_stream rnd L, r1)"
    by (simp add: fill_random_eq r1_def)
  obtain S C r2 where rr: "random_rotations (replicate (nat sz) 0) (replicate (nat sz) 0) r1 = Inr (S, C, r2)"
    by (simp add: random_rotations_eq)
  have cp: "go_copy (rng_stream rnd L) (replicate L 0) = replicate L 0" by simp
  show ?thesis
    unfolding dlasr_trial_def Let_def prod.case ldeq szeq
    by (simp only: mk fr rr go_bind_Inr prod.case cp impl [unfolded ldeq] go_bind_Inl)
qed

lemma dlasr_configs_tests:
  "(sd, pv, dr, t) \<in> set dlasr_configs \<Longrightarrow> t \<in> set dlasr_tests"
  by (auto simp: dlasr_configs_def)

lemma dlasr_tests_shapes:
  "(m, n, lda0) \<in> set dlasr_tests \<Longrightarrow> 1 \<le> m \<and> 1 \<le> n \<and> (lda0 = 0 \<or> n \<le> lda0)"
  by (auto simp: dlasr_tests_def)

lemma dlasr_configs_fold_local:
  assumes "\<forall>(sd, pv, dr, m, n, lda0) \<in> set xs.
             \<forall>c s a. \<exists>a'. impl sd pv dr m n c s a (if lda0 = 0 then n else lda0) = Inr a'"
    and "set xs \<subseteq> set dlasr_configs"
  shows "go_fold (\<lambda>(side, pivot, direct, test) (errs, rnd).
           go_bind (dlasr_trial impl rnd side pivot direct test) (\<lambda>(mismatch, rnd).
             Inr (if mismatch then errs @ [''A update mismatch''] else errs, rnd)))
         xs (errs, r) =
         Inr (errs, r\<lparr>rng_pos := rng_pos r + (\<Sum>(side, _, _, test) \<leftarrow> xs. trial_draws side test)\<rparr>)"
  using assms
proof (induction xs arbitrary: r)
  case Nil
  then show ?case by simp
next
  case (Cons x xs)
  obtain sd pv dr m n lda0 where xe: "x = (sd, pv, dr, m, n, lda0)" by (cases x) auto
  have "(m, n, lda0) \<in> set dlasr_tests" using dlasr_configs_tests Cons.prems xe by auto
  then have sh: "1 \<le> m" "1 \<le> n" "lda0 = 0 \<or> n \<le> lda0" using dlasr_tests_shapes by simp_all
  have impl: "\<And>c s a. \<exists>a'. impl sd pv dr m n c s a (if lda0 = 0 then n else lda0) = Inr a'"
    using Cons.prems(1) xe by auto
  have "dlasr_trial impl r sd pv dr (m, n, lda0) =
          Inr (False, r\<lparr>rng_pos := rng_pos r + trial_draws sd (m, n, lda0)\<rparr>)"
    using dlasr_trial_no_mismatch [where impl = impl and side = sd and pivot = pv and direct = dr
        and rnd = r, OF sh impl] .
  then show ?case using Cons xe by (simp add: add.assoc)
qed

lemma dlasr_configs_fold:
  assumes "\<And>side pivot direct m n c s a lda. \<exists>a'. impl side pivot direct m n c s a lda = Inr a'"
    and "set xs \<subseteq> set dlasr_configs"
  shows "go_fold (\<lambda>(side, pivot, direct, test) (errs, rnd).
           go_bind (dlasr_trial impl rnd side pivot direct test) (\<lambda>(mismatch, rnd).
             Inr (if mismatch then errs @ [''A update mismatch''] else errs, rnd)))
         xs (errs, r) =
         Inr (errs, r\<lparr>rng_pos := rng_pos r + (\<Sum>(side, _, _, test) \<leftarrow> xs. trial_draws side test)\<rparr>)"
  by (rule dlasr_configs_fold_local) (use assms in auto)

text \<open>
  Claim C1.  \<open>DlasrTest\<close> reports no error for any implementation of \<open>Dlasr\<close> that
  returns and leaves its inputs \<open>c\<close> and \<open>s\<close> as they were (so that \<open>P\<close> is built from
  the cosines and sines of the drawn angles and stays finite): whatever the
  implementation writes into \<open>a\<close>, even NaN, is overwritten with zeros by
  \<open>copy(a, aCopy)\<close> at line 146, and the reference product is taken with the never
  filled \<open>aMat\<close>, so both sides of the comparison are zero matrices.
\<close>

theorem DlasrTest_accepts_any:
  assumes "\<And>side pivot direct m n c s a lda. \<exists>a'. impl side pivot direct m n c s a lda = Inr (c, s, a')"
  shows "\<exists>rnd'. DlasrTest impl rnd = Inr ([], rnd')"
proof -
  have "\<And>side pivot direct m n c s a lda. \<exists>r. impl side pivot direct m n c s a lda = Inr r"
    using assms by blast
  from dlasr_configs_fold [where xs = dlasr_configs and errs = "[]" and r = rnd, OF this]
  show ?thesis by (simp add: DlasrTest_def)
qed

lemma dlasr_configs_calls_distinct:
  "distinct (map (\<lambda>(sd, pv, dr, m, n, lda0). (sd, pv, dr, m, n, if lda0 = 0 then n else lda0)) dlasr_configs)"
  by (simp add: dlasr_configs_def dlasr_tests_def)

text \<open>
  Claim C24 (liveness).  Every configuration of the enumeration reaches the
  implementation: the loops of lines 23--36 call \<open>Dlasr\<close> (line 71) with the arguments of each
  configuration (no two configurations share them), so an implementation that panics
  on exactly one of them, whichever it is, makes \<open>DlasrTest\<close> panic.
\<close>

theorem DlasrTest_reaches_every_config:
  assumes cfg: "(sd, pv, dr, m, n, ldt) \<in> set dlasr_configs"
    and stop: "\<And>c s a. impl sd pv dr m n c s a (if ldt = 0 then n else ldt) = Inl e"
    and others: "\<And>sd' pv' dr' m' n' c s a lda. (sd', pv', dr', m', n', lda) \<noteq> (sd, pv, dr, m, n, if ldt = 0 then n else ldt) \<Longrightarrow>
                   \<exists>a'. impl sd' pv' dr' m' n' c s a lda = Inr a'"
  shows "DlasrTest impl rnd = Inl e"
proof -
  obtain xs ys where sp: "dlasr_configs = xs @ (sd, pv, dr, m, n, ldt) # ys"
    using split_list [OF cfg] by blast
  define call :: "side \<times> pivot \<times> direct \<times> int \<times> int \<times> int \<Rightarrow> side \<times> pivot \<times> direct \<times> int \<times> int \<times> int"
    where "call = (\<lambda>(sd, pv, dr, m, n, lda0). (sd, pv, dr, m, n, if lda0 = 0 then n else lda0))"
  have notin: "call (sd, pv, dr, m, n, ldt) \<notin> call ` set xs"
    using dlasr_configs_calls_distinct unfolding sp call_def [symmetric] by simp
  have "\<forall>(sd', pv', dr', m', n', l') \<in> set xs.
          \<forall>c s a. \<exists>a'. impl sd' pv' dr' m' n' c s a (if l' = 0 then n' else l') = Inr a'"
  proof
    fix x assume x: "x \<in> set xs"
    obtain sd' pv' dr' m' n' l' where xe: "x = (sd', pv', dr', m', n', l')" by (cases x) auto
    have "call x \<noteq> call (sd, pv, dr, m, n, ldt)"
    proof
      assume eq: "call x = call (sd, pv, dr, m, n, ldt)"
      show False using notin image_eqI [where f = call, OF sym [OF eq] x] by contradiction
    qed
    then have "(sd', pv', dr', m', n', if l' = 0 then n' else l') \<noteq> (sd, pv, dr, m, n, if ldt = 0 then n else ldt)"
      by (simp add: xe call_def)
    then show "case x of (sd', pv', dr', m', n', l') \<Rightarrow>
          \<forall>c s a. \<exists>a'. impl sd' pv' dr' m' n' c s a (if l' = 0 then n' else l') = Inr a'"
      using others by (simp add: xe)
  qed
  moreover have "set xs \<subseteq> set dlasr_configs" unfolding sp by (rule subsetI) simp
  ultimately have pre: "go_fold (\<lambda>(side, pivot, direct, test) (errs, rnd).
           go_bind (dlasr_trial impl rnd side pivot direct test) (\<lambda>(mismatch, rnd).
             Inr (if mismatch then errs @ [''A update mismatch''] else errs, rnd))) xs ([], rnd) =
         Inr ([], rnd\<lparr>rng_pos := rng_pos rnd + (\<Sum>(side, _, _, test) \<leftarrow> xs. trial_draws side test)\<rparr>)"
    by (rule dlasr_configs_fold_local)
  have "(m, n, ldt) \<in> set dlasr_tests" using dlasr_configs_tests [OF cfg] .
  then have "1 \<le> m" "1 \<le> n" "ldt = 0 \<or> n \<le> ldt" using dlasr_tests_shapes by simp_all
  then have "dlasr_trial impl r sd pv dr (m, n, ldt) = Inl e" for r
    using dlasr_trial_impl_panics [where impl = impl and e = e and rnd = r] stop by simp
  then show ?thesis by (simp add: DlasrTest_def sp go_fold_append pre)
qed

theorem DlasrTest_accepts_any_witness:
  "\<exists>rnd'. DlasrTest (\<lambda>_ _ _ _ _ c s a _. Inr (c, s, replicate (length a) 42))
            \<lparr>rng_draw = \<lambda>_. 0, rng_pos = 0\<rparr> = Inr ([], rnd')"
  using DlasrTest_accepts_any [of "\<lambda>_ _ _ _ _ c s a _. Inr (c, s, replicate (length a) 42)"] by simp

theorem DlasrTest_reaches_every_config_witness:
  "DlasrTest (\<lambda>sd pv dr m n c s a lda.
                if (sd, pv, dr, m, n, lda) = (Right, Bottom, Backward, 10, 5, 20) then Inl IndexOutOfRange else Inr (c, s, a))
     \<lparr>rng_draw = \<lambda>_. 0, rng_pos = 0\<rparr> = Inl IndexOutOfRange"
proof (rule DlasrTest_reaches_every_config [where sd = Right and pv = Bottom and dr = Backward and m = 10 and n = 5
        and ldt = 20])
  show "(Right, Bottom, Backward, 10, 5, 20) \<in> set dlasr_configs"
    by (simp add: dlasr_configs_def dlasr_tests_def)
qed simp_all
end
