(* ===== verification/Rotations.thy ===== *)
theory Rotations
  imports Dlasr
begin

text \<open>
  What the reference model of \<open>dlasr.go\<close> computes.  Abstract square matrices are
  functions of row and column (\<open>Blas.ident\<close>, \<open>Blas.mmul\<close>); \<open>rot\<close> is an elementary
  matrix on a plane, \<open>plane\<close> the plane the test uses for each pivot, and
  \<open>cumulative\<close> the ordered product the loop should build.  The lemmas give the
  closed forms of the identity and rotation stores, refine \<open>build_pk\<close> and
  \<open>rotation_product\<close> to these abstract matrices, and prove the spec's round trips.
\<close>

text \<open>
  The abstract elementary matrix.  \<open>plane pivot n k\<close> is the pair of rows and columns
  the \<open>k\<close>-th matrix \<open>P_k\<close> of the test overrides (lines 115--129), and
  \<open>rot a b c s\<close> is the identity with the entries \<open>(a,a)\<close>, \<open>(a,b)\<close>, \<open>(b,a)\<close>,
  \<open>(b,b)\<close> set to \<open>c\<close>, \<open>s\<close>, \<open>-s\<close>, \<open>c\<close>; when \<open>a = b\<close> the four stores hit one
  entry and the last one, \<open>c\<close>, stays.
\<close>

definition plane :: "pivot \<Rightarrow> nat \<Rightarrow> nat \<Rightarrow> nat \<times> nat" where
  "plane pivot n k = (case pivot of Variable \<Rightarrow> (k, k + 1) | Top \<Rightarrow> (0, k + 1) | Bottom \<Rightarrow> (n - 1 - k, n - 1))"

definition rot :: "nat \<Rightarrow> nat \<Rightarrow> real \<Rightarrow> real \<Rightarrow> nat \<Rightarrow> nat \<Rightarrow> real" where
  "rot a b c s i j =
     (if i = a \<and> j = a then c else if i = a \<and> j = b then s else if i = b \<and> j = a then - s
      else if i = b \<and> j = b then c else ident i j)"

text \<open>The packed row-major data of the identity of order \<open>n\<close>.\<close>

definition identity_data :: "nat \<Rightarrow> real list" where
  "identity_data n = map (\<lambda>q. if q div n = q mod n then 1 else 0) [0..<n * n]"

text \<open>
  The abstract cumulative matrix after \<open>z\<close> rotations: Forward pre-multiplies each new
  elementary matrix, Backward post-multiplies it (lines 132--136).
\<close>

definition rot_k :: "pivot \<Rightarrow> nat \<Rightarrow> real list \<Rightarrow> real list \<Rightarrow> nat \<Rightarrow> nat \<Rightarrow> nat \<Rightarrow> real" where
  "rot_k pivot n c s k = rot (fst (plane pivot n k)) (snd (plane pivot n k)) (c ! k) (s ! k)"

definition cumulative :: "pivot \<Rightarrow> direct \<Rightarrow> nat \<Rightarrow> real list \<Rightarrow> real list \<Rightarrow> nat \<Rightarrow> nat \<Rightarrow> nat \<Rightarrow> real" where
  "cumulative pivot direct n c s z =
     foldl (\<lambda>P k. if direct = Forward then mmul n (rot_k pivot n c s k) P else mmul n P (rot_k pivot n c s k))
       ident [0..<z]"

text \<open>\<open>represents n g A\<close>: the packed \<open>n\<close> by \<open>n\<close> matrix \<open>g\<close> holds the abstract matrix \<open>A\<close>.\<close>

definition represents :: "nat \<Rightarrow> general \<Rightarrow> (nat \<Rightarrow> nat \<Rightarrow> real) \<Rightarrow> bool" where
  "represents n g A = (is_square (int n) g \<and> (\<forall>i < n. \<forall>j < n. mat_of g i j = A i j))"

text \<open>
  The state invariant of the loop of lines 105--138: \<open>P\<close>, \<open>P_k\<close> and \<open>ptmp\<close> are
  packed \<open>n\<close> by \<open>n\<close> matrices and \<open>ptmp\<close> holds a copy of \<open>P\<close>.
\<close>

definition loop_inv :: "nat \<Rightarrow> general \<times> general \<times> general \<Rightarrow> bool" where
  "loop_inv n st = (case st of (p, pk, pt) \<Rightarrow>
     is_square (int n) p \<and> is_square (int n) pk \<and> is_square (int n) pt \<and> gdata pt = gdata p)"

section \<open>The elementary matrices refine the abstract rotations\<close>

lemma identity_data_prefix:
  assumes "i \<le> n"
  shows "go_fold (\<lambda>i d. go_store d (i * int n + i) 1) (map int [0..<i]) (replicate (n * n) (0::real)) =
         Inr (map (\<lambda>q. if q div n = q mod n \<and> q div n < i then 1 else 0) [0..<n * n])"
  using assms
proof (induction i)
  case 0
  then show ?case by (simp add: map_replicate_const)
next
  case (Suc i)
  have ix: "nat (int i * int n + int i) = i * n + i"
    by (simp only: of_nat_mult [symmetric] of_nat_add [symmetric] nat_int)
  have lt: "i * n + i < n * n" using Suc.prems by (simp add: row_major_lt)
  have "(map (\<lambda>q. if q div n = q mod n \<and> q div n < i then 1 else (0::real)) [0..<n * n])[i * n + i := 1] =
        map (\<lambda>q. if q div n = q mod n \<and> q div n < Suc i then 1 else 0) [0..<n * n]"
  proof (rule nth_equalityI)
    fix q assume "q < length ((map (\<lambda>q. if q div n = q mod n \<and> q div n < i then 1 else (0::real)) [0..<n * n])[i * n + i := 1])"
    then have q: "q < n * n" by simp
    have "(q = i * n + i) = (q div n = i \<and> q mod n = i)"
    proof
      assume "q = i * n + i"
      then show "q div n = i \<and> q mod n = i" using Suc.prems by simp
    next
      assume "q div n = i \<and> q mod n = i"
      then show "q = i * n + i" using div_mult_mod_eq [of q n] by simp
    qed
    then show "(map (\<lambda>q. if q div n = q mod n \<and> q div n < i then 1 else (0::real)) [0..<n * n])[i * n + i := 1] ! q =
               map (\<lambda>q. if q div n = q mod n \<and> q div n < Suc i then 1 else 0) [0..<n * n] ! q"
      using q lt by (auto simp: nth_list_update)
  qed simp
  moreover have "int i * int n + int i < int (n * n)"
    using lt by (simp only: of_nat_mult [symmetric] of_nat_add [symmetric] of_nat_less_iff)
  ultimately show ?case using Suc by (simp add: go_fold_append go_store_def ix)
qed

lemma set_identity_eq:
  "set_identity (int n) (int n) (replicate (n * n) 0) = Inr (identity_data n)"
proof -
  have "map (\<lambda>q. if q div n = q mod n \<and> q div n < n then 1 else 0) [0..<n * n] = identity_data n"
    unfolding identity_data_def by (rule map_cong) (auto simp: less_mult_imp_div_less)
  then show ?thesis
    unfolding set_identity_def go_range_def nat_int identity_data_prefix [OF order_refl] by (rule arg_cong)
qed

lemma set_rotation_eq:
  fixes n k :: nat
  assumes k: "k + 1 < n" and len: "length d = n * n" and ab: "plane pivot n k = (a, b)"
  shows "set_rotation pivot (int n) (int n) (int k) ck sk d =
           Inr (d[a * n + a := ck, a * n + b := sk, b * n + a := - sk, b * n + b := ck])"
proof -
  have bnd: "a < n" "b < n" using k ab by (auto simp: plane_def split: pivot.splits)
  then have lt: "a * n + a < length d" "a * n + b < length d" "b * n + a < length d" "b * n + b < length d"
    using len by (simp_all add: row_major_lt)
  show ?thesis
  proof (cases pivot)
    case Variable
    have "a = k" "b = k + 1" using ab Variable by (simp_all add: plane_def)
    note ab' = this
    show ?thesis unfolding set_rotation_def Variable pivot.case
      by (rule go_store4) (use lt ab' in \<open>simp_all add: algebra_simps\<close>)
  next
    case Top
    have "a = 0" "b = k + 1" using ab Top by (simp_all add: plane_def)
    note ab' = this
    show ?thesis unfolding set_rotation_def Top pivot.case
      by (rule go_store4) (use lt ab' in \<open>simp_all add: algebra_simps\<close>)
  next
    case Bottom
    have "int n = int a + int k + 1" "int b = int a + int k" using ab k Bottom by (auto simp: plane_def)
    note ab' = this
    show ?thesis unfolding set_rotation_def Bottom pivot.case
      by (rule go_store4) (use lt ab' in \<open>simp_all add: algebra_simps\<close>)
  qed
qed

lemma length_identity_data [simp]: "length (identity_data n) = n * n"
  by (simp add: identity_data_def)

lemma identity_data_nth:
  "i < n \<Longrightarrow> j < n \<Longrightarrow> identity_data n ! (i * n + j) = ident i j"
  by (simp add: identity_data_def ident_def row_major_lt)

lemma plane_bounds:
  "k + 1 < n \<Longrightarrow> plane pivot n k = (a, b) \<Longrightarrow> a < n \<and> b < n"
  by (auto simp: plane_def split: pivot.splits)

lemma build_pk_eq:
  fixes n k :: nat
  assumes k: "k + 1 < n" "k < length c" "k < length s" and len: "length d = n * n"
    and ab: "plane pivot n k = (a, b)"
  shows "build_pk pivot (int n) (int n) (int (n * n)) c s (int k) d =
           Inr ((identity_data n)[a * n + a := c ! k, a * n + b := s ! k, b * n + a := - (s ! k),
                                  b * n + b := c ! k])"
proof -
  have "go_fold (\<lambda>i d. go_store d i 0) (go_range (int (n * n))) d = Inr (replicate (n * n) 0)"
    using go_fold_store_fill_all [of 0 d] len by simp
  then show ?thesis
    using k set_identity_eq [of n] set_rotation_eq [OF k(1) _ ab, of "identity_data n"]
    by (simp add: build_pk_def go_index_def)
qed

lemma rotation_data_nth:
  assumes "a < n" "b < n" "i < n" "j < n"
  shows "(identity_data n)[a * n + a := c, a * n + b := s, b * n + a := - s, b * n + b := c] ! (i * n + j) =
         rot a b c s i j"
  using assms by (simp add: nth_list_update row_major_lt square_pos_inj identity_data_nth rot_def)

lemma rot_outside:
  "i \<noteq> a \<Longrightarrow> i \<noteq> b \<Longrightarrow> rot a b c s i j = ident i j" "j \<noteq> a \<Longrightarrow> j \<noteq> b \<Longrightarrow> rot a b c s i j = ident i j"
  by (auto simp: rot_def ident_def)

text \<open>The plane rotation with \<open>-s\<close> is the inverse of the one with \<open>s\<close>.\<close>

lemma rot_inverse:
  assumes ab: "a < n" "b < n" "a \<noteq> b" and cs: "c\<^sup>2 + s\<^sup>2 = 1" and ij: "i < n" "j < n"
  shows "mmul n (rot a b c s) (rot a b c (- s)) i j = ident i j"
proof -
  have cs': "c * c + s * s = 1" using cs by (simp add: power2_eq_square)
  have row: "mmul n (rot a b c s) (rot a b c (- s)) i j =
             rot a b c s i a * rot a b c (- s) a j + rot a b c s i b * rot a b c (- s) b j"
    if "i = a \<or> i = b"
    unfolding mmul_def using ab that by (intro sum_upt_two) (auto simp: rot_def ident_def)
  have ra: "rot a b c (- s) a j = (if j = a then c else if j = b then - s else 0)"
    and rb: "rot a b c (- s) b j = (if j = a then s else if j = b then c else 0)"
    using ab by (auto simp: rot_def ident_def)
  consider "i = a" | "i = b" | "i \<noteq> a" "i \<noteq> b" by blast
  then show ?thesis
  proof cases
    case 1
    then show ?thesis using row ra rb ab cs' by (simp add: rot_def ident_def)
  next
    case 2
    then show ?thesis using row ra rb ab cs' by (simp add: rot_def ident_def)
  next
    case 3
    then have "mmul n (rot a b c s) (rot a b c (- s)) i j = rot a b c (- s) i j"
      unfolding mmul_def using ij by (subst sum_upt_one [of i]) (auto simp: rot_def ident_def)
    then show ?thesis using 3 by (simp add: rot_outside)
  qed
qed

lemma mat_of_packed:
  "mat_of \<lparr>rows = r, cols = cl, stride = int n, gdata = d\<rparr> i j = d ! (i * n + j)"
  by (simp add: mat_of_def gat_def)

lemma rotation_product_nil:
  "rotation_product pivot direct (int n) [] [] =
     Inr \<lparr>rows = int n, cols = int n, stride = int n, gdata = identity_data n\<rparr>"
  using set_identity_eq [of n] by (simp add: rotation_product_def square_Inr go_range_def)

lemma square_general_ok:
  "0 < n \<Longrightarrow> is_square (int n) g \<Longrightarrow> general_ok g"
  using is_square_general_ok [of "int n" g] by simp

lemma rotation_step_refines:
  assumes k: "k + 1 < n" "k < length c" "k < length s"
    and p: "represents n p A" and pk: "is_square (int n) pk" and pt: "is_square (int n) ptmp"
    and same: "gdata ptmp = gdata p"
  shows "\<exists>p' pk' ptmp'. rotation_step pivot direct (int n) c s (int k) (p, pk, ptmp) = Inr (p', pk', ptmp') \<and>
           represents n p' (if direct = Forward then mmul n (rot_k pivot n c s k) A
                            else mmul n A (rot_k pivot n c s k)) \<and>
           is_square (int n) pk' \<and> is_square (int n) ptmp' \<and> gdata ptmp' = gdata p'"
proof -
  obtain a b where ab: "plane pivot n k = (a, b)" by fastforce
  have bnd: "a < n" "b < n" using plane_bounds [OF k(1) ab] by auto
  have sp: "is_square (int n) p" "\<forall>i < n. \<forall>j < n. mat_of p i j = A i j" using p by (auto simp: represents_def)
  have lp: "length (gdata p) = n * n" "length (gdata pk) = n * n" "stride p = int n"
    using sp(1) pk by (simp_all add: is_square_def)
  define d2 where "d2 = (identity_data n)[a * n + a := c ! k, a * n + b := s ! k, b * n + a := - (s ! k),
                                             b * n + b := c ! k]"
  have b2: "build_pk pivot (int n) (stride p) (int (length (gdata p))) c s (int k) (gdata pk) = Inr d2"
    using build_pk_eq [OF k lp(2) ab] lp unfolding d2_def by simp
  let ?pk = "pk\<lparr>gdata := d2\<rparr>"
  have spk: "is_square (int n) ?pk" using pk by (simp add: is_square_def d2_def)
  have mpk: "mat_of ?pk i j = rot_k pivot n c s k i j" if "i < n" "j < n" for i j
    using pk that bnd ab unfolding d2_def
    by (simp add: mat_of_stride is_square_def rotation_data_nth rot_k_def)
  have mpt: "mat_of ptmp i j = A i j" if "i < n" "j < n" for i j
    using sp that pt lp same by (simp add: mat_of_stride is_square_def)
  have n: "0 < n" using k by simp
  note oks = square_general_ok [OF n spk] square_general_ok [OF n pt] square_general_ok [OF n sp(1)]
  have shp: "cols ?pk = rows ptmp" "rows ?pk = rows p" "cols ptmp = cols p"
            "cols ptmp = rows ?pk" "rows ptmp = rows p" "cols ?pk = cols p"
    using spk pt sp(1) by (simp_all add: is_square_def)
  obtain p' where g: "(if direct = Forward then gemm 1 ?pk ptmp 0 p else gemm 1 ptmp ?pk 0 p) = Inr p'"
    and sq': "is_square (int n) p'"
    and m': "\<And>i j. i < n \<Longrightarrow> j < n \<Longrightarrow> mat_of p' i j =
               (if direct = Forward then mmul n (rot_k pivot n c s k) A i j else mmul n A (rot_k pivot n c s k) i j)"
  proof (cases "direct = Forward")
    case True
    obtain r where r: "gemm 1 ?pk ptmp 0 p = Inr r" "is_square (int n) r"
      using gemm_Inr [OF oks(1,2,3) shp(1,2,3), of 1 0] sp(1) by (auto simp: is_square_def)
    have "mat_of r i j = mmul n (rot_k pivot n c s k) A i j" if "i < n" "j < n" for i j
    proof -
      have "mat_of r i j = (\<Sum>l \<leftarrow> [0..<n]. mat_of ?pk i l * mat_of ptmp l j)"
        using gemm_refines [OF oks(1,2,3) shp(1,2,3) _ _ r(1)] that spk sp(1) by (simp add: is_square_def)
      also have "\<dots> = mmul n (rot_k pivot n c s k) A i j"
        unfolding mmul_def using that by (intro sum_upt_cong) (simp add: mpk mpt)
      finally show ?thesis .
    qed
    then show ?thesis using that True r by simp
  next
    case False
    obtain r where r: "gemm 1 ptmp ?pk 0 p = Inr r" "is_square (int n) r"
      using gemm_Inr [OF oks(2,1,3) shp(4,5,6), of 1 0] sp(1) by (auto simp: is_square_def)
    have "mat_of r i j = mmul n A (rot_k pivot n c s k) i j" if "i < n" "j < n" for i j
    proof -
      have "mat_of r i j = (\<Sum>l \<leftarrow> [0..<n]. mat_of ptmp i l * mat_of ?pk l j)"
        using gemm_refines [OF oks(2,1,3) shp(4,5,6) _ _ r(1)] that pt sp(1) by (simp add: is_square_def)
      also have "\<dots> = mmul n A (rot_k pivot n c s k) i j"
        unfolding mmul_def using that by (intro sum_upt_cong) (simp add: mpk mpt)
      finally show ?thesis .
    qed
    then show ?thesis using that False r by simp
  qed
  have "rotation_step pivot direct (int n) c s (int k) (p, pk, ptmp) =
          Inr (p', ?pk, ptmp\<lparr>gdata := go_copy (gdata ptmp) (gdata p')\<rparr>)"
    using b2 g by (simp add: rotation_step_def)
  moreover have "gdata (ptmp\<lparr>gdata := go_copy (gdata ptmp) (gdata p')\<rparr>) = gdata p'"
    using sq' pt by (simp add: is_square_def)
  moreover have "is_square (int n) (ptmp\<lparr>gdata := go_copy (gdata ptmp) (gdata p')\<rparr>)"
    using pt by (simp add: is_square_def)
  ultimately show ?thesis using sq' m' spk by (auto simp: represents_def)
qed

lemma cumulative_Suc:
  "cumulative pivot direct n c s (Suc z) =
     (if direct = Forward then mmul n (rot_k pivot n c s z) (cumulative pivot direct n c s z)
      else mmul n (cumulative pivot direct n c s z) (rot_k pivot n c s z))"
  by (simp add: cumulative_def)

lemma rotation_fold_prefix:
  assumes z: "z \<le> length s" and len: "length s = n - 1" "length c = length s" and n: "0 < n"
    and st0: "represents n p0 ident" "is_square (int n) pk0" "is_square (int n) pt0" "gdata pt0 = gdata p0"
  shows "\<exists>p pk pt. go_fold (rotation_step pivot direct (int n) c s) (map int [0..<z]) (p0, pk0, pt0) = Inr (p, pk, pt) \<and>
           represents n p (cumulative pivot direct n c s z) \<and> is_square (int n) pk \<and> is_square (int n) pt \<and>
           gdata pt = gdata p"
  using z
proof (induction z)
  case 0
  then show ?case using st0 by (simp add: cumulative_def)
next
  case (Suc z)
  then obtain p pk pt where ih: "go_fold (rotation_step pivot direct (int n) c s) (map int [0..<z]) (p0, pk0, pt0) =
      Inr (p, pk, pt)" "represents n p (cumulative pivot direct n c s z)" "is_square (int n) pk"
      "is_square (int n) pt" "gdata pt = gdata p" by auto
  have k: "z + 1 < n" "z < length c" "z < length s" using Suc.prems len by auto
  show ?case
    using rotation_step_refines [OF k ih(2-5), of pivot direct] ih(1)
    by (auto simp: go_fold_append cumulative_Suc)
qed

lemma rotation_product_cumulative:
  assumes n: "0 < n" and len: "length s = n - 1" "length c = length s"
  shows "\<exists>p. rotation_product pivot direct (int n) c s = Inr p \<and>
           represents n p (cumulative pivot direct n c s (n - 1))"
proof -
  let ?z = "\<lparr>rows = int n, cols = int n, stride = int n, gdata = replicate (n * n) (0::real)\<rparr>"
  let ?I = "?z\<lparr>gdata := identity_data n\<rparr>"
  have st0: "represents n ?I ident" "is_square (int n) ?z" "is_square (int n) ?I"
    by (simp_all add: represents_def is_square_def mat_of_packed identity_data_nth)
  obtain p pk pt where f: "go_fold (rotation_step pivot direct (int n) c s) (map int [0..<n - 1]) (?I, ?z, ?I) =
      Inr (p, pk, pt)" "represents n p (cumulative pivot direct n c s (n - 1))"
    using rotation_fold_prefix [of "n - 1" s n c ?I ?z ?I pivot direct] len n st0 by auto
  have "rotation_product pivot direct (int n) c s = Inr p"
    using f(1) set_identity_eq [of n] len by (simp add: rotation_product_def square_Inr go_range_def)
  then show ?thesis using f(2) by simp
qed

section \<open>Properties of the reference model\<close>

text \<open>
  Claim C9.  Round trip, first half (spec, section 8): with no rotations the cumulative
  matrix \<open>P\<close> built at lines 80--138 is the identity.
\<close>

theorem rotation_product_no_rotations:
  "\<exists>p. rotation_product pivot direct (int n) [] [] = Inr p \<and> is_square (int n) p \<and>
       (\<forall>i < n. \<forall>j < n. mat_of p i j = ident i j)"
  using rotation_product_nil [of pivot direct n]
  by (simp add: is_square_def mat_of_packed identity_data_nth)

text \<open>
  Claim C19 (invariant).  Every iteration of the rotation loop with a rotation index in
  range returns without a panic and preserves \<open>loop_inv\<close>.
\<close>

theorem rotation_step_invariant:
  assumes k: "k + 1 < n" "k < length c" "k < length s" and inv: "loop_inv n st"
  shows "\<exists>st'. rotation_step pivot direct (int n) c s (int k) st = Inr st' \<and> loop_inv n st'"
proof -
  obtain p pk pt where st: "st = (p, pk, pt)" by (cases st) auto
  have "represents n p (mat_of p)" "is_square (int n) pk" "is_square (int n) pt" "gdata pt = gdata p"
    using inv st by (simp_all add: loop_inv_def represents_def)
  from rotation_step_refines [OF k this, of pivot direct] show ?thesis
    using st by (auto simp: loop_inv_def represents_def)
qed

text \<open>
  Claim C2.  Refinement of the reference model (spec 4.4, steps 1--2): for \<open>pSize \<ge> 1\<close>
  and \<open>pSize - 1\<close> rotations, the loop of lines 99--138 returns without a panic a packed
  matrix holding \<open>P_(z-1) \<dots> P_1 P_0\<close> for Forward and \<open>P_0 P_1 \<dots> P_(z-1)\<close> for
  Backward, with \<open>P_k = rot_k pivot pSize c s k\<close>.
\<close>

theorem rotation_product_refines:
  assumes n: "0 < n" and len: "length s = n - 1" "length c = length s"
  shows "\<exists>p. rotation_product pivot direct (int n) c s = Inr p \<and> is_square (int n) p \<and>
           (\<forall>i < n. \<forall>j < n. mat_of p i j = cumulative pivot direct n c s (n - 1) i j)"
  using rotation_product_cumulative [OF assms, of pivot direct] by (simp add: represents_def)

text \<open>
  Claim C7.  Refinement: the matrix \<open>P_k\<close> that lines 106--130 write is the abstract
  elementary matrix \<open>rot a b (c[k]) (s[k])\<close> on the plane \<open>(a, b) = plane pivot n k\<close>.
\<close>

theorem build_pk_refines:
  assumes "k + 1 < n" "k < length c" "k < length s" "length d = n * n"
  shows "\<exists>d'. build_pk pivot (int n) (int n) (int (n * n)) c s (int k) d = Inr d' \<and>
           length d' = n * n \<and>
           (\<forall>i < n. \<forall>j < n. mat_of \<lparr>rows = int n, cols = int n, stride = int n, gdata = d'\<rparr> i j =
              rot (fst (plane pivot n k)) (snd (plane pivot n k)) (c ! k) (s ! k) i j)"
proof -
  obtain a b where ab: "plane pivot n k = (a, b)" by fastforce
  have "a < n \<and> b < n" using plane_bounds [OF assms(1) ab] .
  then show ?thesis
    using build_pk_eq [OF assms ab] rotation_data_nth [of a n b] ab
    by (simp add: mat_of_packed)
qed

text \<open>
  Claim C8.  Round trip, second half (spec, section 8): when \<open>P_k\<close> is a proper plane
  rotation (\<open>c[k]^2 + s[k]^2 = 1\<close> on two distinct rows), the matrix built from the same
  angle with \<open>-s[k]\<close> is its inverse: \<open>Gemm\<close> of the two gives the identity.
\<close>

theorem elementary_inverse_roundtrip:
  assumes k: "k + 1 < n" "k < length c" "k < length s" and len: "length d = n * n"
    and pl: "fst (plane pivot n k) \<noteq> snd (plane pivot n k)" and cs: "(c ! k)\<^sup>2 + (s ! k)\<^sup>2 = 1"
  shows "\<exists>r. go_bind (build_pk pivot (int n) (int n) (int (n * n)) c s (int k) d) (\<lambda>d1.
              go_bind (build_pk pivot (int n) (int n) (int (n * n)) c (map uminus s) (int k) d) (\<lambda>d2.
              gemm 1 \<lparr>rows = int n, cols = int n, stride = int n, gdata = d1\<rparr>
                     \<lparr>rows = int n, cols = int n, stride = int n, gdata = d2\<rparr> 0
                     \<lparr>rows = int n, cols = int n, stride = int n, gdata = d\<rparr>)) = Inr r \<and>
           (\<forall>i < n. \<forall>j < n. mat_of r i j = ident i j)"
proof -
  obtain a b where ab: "plane pivot n k = (a, b)" by fastforce
  have bnd: "a < n" "b < n" "a \<noteq> b" using plane_bounds [OF k(1) ab] pl ab by auto
  let ?M = "\<lambda>x. \<lparr>rows = int n, cols = int n, stride = int n, gdata = x\<rparr>"
  let ?d1 = "(identity_data n)[a * n + a := c ! k, a * n + b := s ! k, b * n + a := - (s ! k), b * n + b := c ! k]"
  let ?d2 = "(identity_data n)[a * n + a := c ! k, a * n + b := - (s ! k), b * n + a := - (- (s ! k)), b * n + b := c ! k]"
  have b1: "build_pk pivot (int n) (int n) (int (n * n)) c s (int k) d = Inr ?d1"
    using build_pk_eq [OF k len ab] .
  have b2: "build_pk pivot (int n) (int n) (int (n * n)) c (map uminus s) (int k) d = Inr ?d2"
    using build_pk_eq [of k n c "map uminus s" d, OF _ _ _ len ab] k by simp
  have ok: "general_ok (?M x)" if "length x = n * n" for x
    using is_square_general_ok [of "int n" "?M x"] that k by (simp add: is_square_def)
  have l: "length ?d1 = n * n" "length ?d2 = n * n" by simp_all
  note oks = ok [OF l(1)] ok [OF l(2)] ok [OF len]
  obtain r where r: "gemm 1 (?M ?d1) (?M ?d2) 0 (?M d) = Inr r"
    using gemm_Inr [OF oks, of 1 0] by auto
  have "mat_of r i j = ident i j" if ij: "i < n" "j < n" for i j
  proof -
    have "mat_of r i j = (\<Sum>l \<leftarrow> [0..<n]. mat_of (?M ?d1) i l * mat_of (?M ?d2) l j)"
      using gemm_refines [OF oks _ _ _ _ _ r] ij by simp
    also have "\<dots> = mmul n (rot a b (c ! k) (s ! k)) (rot a b (c ! k) (- (s ! k))) i j"
      unfolding mmul_def using ij bnd
      by (intro sum_upt_cong)
         (simp add: mat_of_packed rotation_data_nth rotation_data_nth [where s = "- (s ! k)", simplified])
    also have "\<dots> = ident i j" using rot_inverse [OF bnd cs ij] .
    finally show ?thesis .
  qed
  then show ?thesis using b1 b2 r by simp
qed

section \<open>Witnesses\<close>

theorem rotation_product_no_rotations_witness:
  "\<exists>p. rotation_product Bottom Backward 3 [] [] = Inr p \<and> mat_of p 2 2 = 1 \<and> mat_of p 0 2 = 0"
  using rotation_product_no_rotations [of Bottom Backward 3] by (auto simp: ident_def)

theorem build_pk_refines_witness:
  "\<exists>d'. build_pk Top 3 3 9 [0, 0] [1, 1] 1 (replicate 9 0) = Inr d' \<and>
        mat_of \<lparr>rows = 3, cols = 3, stride = 3, gdata = d'\<rparr> 0 2 = 1 \<and>
        mat_of \<lparr>rows = 3, cols = 3, stride = 3, gdata = d'\<rparr> 2 0 = -1"
  using build_pk_refines [of 1 3 "[0, 0]" "[1, 1]" "replicate 9 0" Top]
  by (auto simp: plane_def rot_def)

theorem elementary_inverse_roundtrip_witness:
  "\<exists>r. go_bind (build_pk Variable 2 2 4 [0] [1] 0 (replicate 4 0)) (\<lambda>d1.
         go_bind (build_pk Variable 2 2 4 [0] (map uminus [1]) 0 (replicate 4 0)) (\<lambda>d2.
         gemm 1 \<lparr>rows = 2, cols = 2, stride = 2, gdata = d1\<rparr> \<lparr>rows = 2, cols = 2, stride = 2, gdata = d2\<rparr> 0
                \<lparr>rows = 2, cols = 2, stride = 2, gdata = replicate 4 0\<rparr>)) = Inr r \<and>
       mat_of r 0 0 = 1 \<and> mat_of r 0 1 = 0"
  using elementary_inverse_roundtrip [of 0 2 "[0]" "[1]" "replicate 4 0" Variable]
  by (auto simp: plane_def ident_def)

theorem rotation_product_refines_witness:
  "\<exists>p. rotation_product Variable Forward 2 [0] [1] = Inr p \<and> mat_of p 0 1 = 1 \<and> mat_of p 1 0 = -1"
proof -
  have "cumulative Variable Forward 2 [0] [1] 1 0 1 = 1" "cumulative Variable Forward 2 [0] [1] 1 1 0 = -1"
    by (simp_all add: cumulative_def mmul_def rot_k_def plane_def rot_def ident_def upt_rec)
  then show ?thesis using rotation_product_refines [of 2 "[1]" "[0]" Variable Forward] by auto
qed


theorem rotation_step_invariant_witness:
  "\<exists>st'. rotation_step Top Backward 3 [1, 0] [0, 1] 1
           (\<lparr>rows = 3, cols = 3, stride = 3, gdata = replicate 9 0\<rparr>,
            \<lparr>rows = 3, cols = 3, stride = 3, gdata = replicate 9 0\<rparr>,
            \<lparr>rows = 3, cols = 3, stride = 3, gdata = replicate 9 0\<rparr>) = Inr st' \<and> loop_inv 3 st'"
  using rotation_step_invariant [of 1 3 "[1, 0]" "[0, 1]"
          "(\<lparr>rows = 3, cols = 3, stride = 3, gdata = replicate 9 0\<rparr>,
            \<lparr>rows = 3, cols = 3, stride = 3, gdata = replicate 9 0\<rparr>,
            \<lparr>rows = 3, cols = 3, stride = 3, gdata = replicate 9 0\<rparr>)" Top Backward]
  by (simp add: loop_inv_def is_square_def)

end
