(* ===== verification/DlasrRef.thy ===== *)
theory DlasrRef
  imports Rotations
begin

text \<open>
  The implicit update the cross-check is meant to validate (spec 4.4: a sequence of plane
  rotations applied in place, with the pivot varying with the rotation index, fixed at the
  top or fixed at the bottom).  The \<open>Dlasr\<close> implementation is not in the repository; its
  contract for \<open>side = Left\<close> is modelled from the spec and LAPACK's \<open>dlasr\<close>: rotation
  \<open>k\<close> (with \<open>c[k]\<close>, \<open>s[k]\<close>) acts on the rows \<open>lapack_plane pivot m k\<close>, replacing
  \<open>(a_i, a_j)\<close> by \<open>(c a_i + s a_j, -s a_i + c a_j)\<close>; Forward applies the rotations
  \<open>k = 0, 1, \<dots>\<close> in turn, Backward in the reverse order.  For \<open>side = Right\<close> the
  contract (LAPACK's \<open>A := A P^T\<close>) rotates the columns of the same planes.  The lemmas
  relate the product of explicit matrices the test builds to these updates: for Left
  the test's \<open>P A\<close> is the row update (Variable and Top pivots), for Right its \<open>A P\<close> is
  the column update with the sines negated and the direction reversed, not \<open>A P^T\<close>.
\<close>

definition lapack_plane :: "pivot \<Rightarrow> nat \<Rightarrow> nat \<Rightarrow> nat \<times> nat" where
  "lapack_plane pivot m k = (case pivot of Variable \<Rightarrow> (k, k + 1) | Top \<Rightarrow> (0, k + 1) | Bottom \<Rightarrow> (k, m - 1))"

definition rotate_rows :: "nat \<Rightarrow> nat \<Rightarrow> real \<Rightarrow> real \<Rightarrow> (nat \<Rightarrow> nat \<Rightarrow> real) \<Rightarrow> nat \<Rightarrow> nat \<Rightarrow> real" where
  "rotate_rows a b c s A i j =
     (if i = a then c * A a j + s * A b j else if i = b then - s * A a j + c * A b j else A i j)"

definition dlasr_left :: "pivot \<Rightarrow> direct \<Rightarrow> nat \<Rightarrow> real list \<Rightarrow> real list \<Rightarrow> (nat \<Rightarrow> nat \<Rightarrow> real) \<Rightarrow>
    nat \<Rightarrow> nat \<Rightarrow> real" where
  "dlasr_left pivot direct m c s A =
     foldl (\<lambda>A k. rotate_rows (fst (lapack_plane pivot m k)) (snd (lapack_plane pivot m k)) (c ! k) (s ! k) A)
       A (if direct = Forward then [0..<m - 1] else rev [0..<m - 1])"

text \<open>
  For \<open>side = Right\<close> LAPACK's contract is \<open>A := A P^T\<close>: rotation \<open>k\<close> acts on the columns
  of the plane, replacing \<open>(a_i, a_j)\<close> by \<open>(c a_i + s a_j, -s a_i + c a_j)\<close>, in the
  order the direction prescribes.
\<close>

definition rotate_cols :: "nat \<Rightarrow> nat \<Rightarrow> real \<Rightarrow> real \<Rightarrow> (nat \<Rightarrow> nat \<Rightarrow> real) \<Rightarrow> nat \<Rightarrow> nat \<Rightarrow> real" where
  "rotate_cols a b c s A i j =
     (if j = a then c * A i a + s * A i b else if j = b then - s * A i a + c * A i b else A i j)"

definition dlasr_right :: "pivot \<Rightarrow> direct \<Rightarrow> nat \<Rightarrow> real list \<Rightarrow> real list \<Rightarrow> (nat \<Rightarrow> nat \<Rightarrow> real) \<Rightarrow>
    nat \<Rightarrow> nat \<Rightarrow> real" where
  "dlasr_right pivot direct n c s A =
     foldl (\<lambda>A k. rotate_cols (fst (lapack_plane pivot n k)) (snd (lapack_plane pivot n k)) (c ! k) (s ! k) A)
       A (if direct = Forward then [0..<n - 1] else rev [0..<n - 1])"

section \<open>Matrix algebra on abstract matrices\<close>

lemma sum_list_upt_sum: "(\<Sum>l \<leftarrow> [0..<m]. f l) = (\<Sum>l \<in> {0..<m}. f l :: real)"
  by (simp add: sum_list_distinct_conv_sum_set)

lemma mmul_assoc: "mmul m (mmul m A B) C i j = mmul m A (mmul m B C) i j"
proof -
  have "mmul m (mmul m A B) C i j = (\<Sum>l \<in> {0..<m}. \<Sum>k \<in> {0..<m}. A i k * B k l * C l j)"
    by (simp add: mmul_def sum_list_upt_sum sum_distrib_right)
  also have "\<dots> = (\<Sum>k \<in> {0..<m}. \<Sum>l \<in> {0..<m}. A i k * B k l * C l j)"
    by (rule sum.swap)
  also have "\<dots> = mmul m A (mmul m B C) i j"
    by (simp add: mmul_def sum_list_upt_sum sum_distrib_left mult.assoc)
  finally show ?thesis .
qed

lemma mmul_ident_left: "i < m \<Longrightarrow> mmul m ident A i j = A i j"
  unfolding mmul_def by (subst sum_upt_one [of i]) (auto simp: ident_def)

lemma mmul_cong_left:
  "(\<And>l. l < m \<Longrightarrow> A i l = A' i l) \<Longrightarrow> mmul m A B i j = mmul m A' B i j"
  unfolding mmul_def by (rule sum_upt_cong) simp

text \<open>Multiplying by an elementary rotation on the left rotates two rows.\<close>

lemma mmul_rot_left:
  assumes ab: "a < m" "b < m" "a \<noteq> b" and i: "i < m"
  shows "mmul m (rot a b c s) A i j = rotate_rows a b c s A i j"
proof -
  consider "i = a" | "i = b" | "i \<noteq> a" "i \<noteq> b" by blast
  then show ?thesis
  proof cases
    case 1
    then have "mmul m (rot a b c s) A i j = rot a b c s i a * A a j + rot a b c s i b * A b j"
      unfolding mmul_def using ab by (intro sum_upt_two) (auto simp: rot_def ident_def)
    then show ?thesis using 1 ab by (simp add: rot_def rotate_rows_def)
  next
    case 2
    then have "mmul m (rot a b c s) A i j = rot a b c s i a * A a j + rot a b c s i b * A b j"
      unfolding mmul_def using ab by (intro sum_upt_two) (auto simp: rot_def ident_def)
    then show ?thesis using 2 ab by (simp add: rot_def rotate_rows_def)
  next
    case 3
    then have "mmul m (rot a b c s) A i j = A i j"
      unfolding mmul_def using i by (subst sum_upt_one [of i]) (auto simp: rot_def ident_def)
    then show ?thesis using 3 by (simp add: rotate_rows_def)
  qed
qed

lemma rotate_rows_cong:
  "(\<And>l. l < m \<Longrightarrow> X l j = Y l j) \<Longrightarrow> a < m \<Longrightarrow> b < m \<Longrightarrow> i < m \<Longrightarrow>
   rotate_rows a b c s X i j = rotate_rows a b c s Y i j"
  by (simp add: rotate_rows_def)


section \<open>Products of rotations against sequences of row updates\<close>

text \<open>
  A list of rotation indices \<open>ks\<close>, rotation \<open>k\<close> on the rows \<open>pa k\<close>, \<open>pb k\<close> with
  \<open>cc k\<close>, \<open>ss k\<close>.  Pre-multiplying the product (Forward) applies the rotations in
  list order; post-multiplying (Backward) applies them in reverse order.
\<close>

lemma forward_product_rows:
  assumes ok: "\<forall>k \<in> set ks. pa k < m \<and> pb k < m \<and> pa k \<noteq> pb k" and i: "i < m"
  shows "mmul m (foldl (\<lambda>P k. mmul m (rot (pa k) (pb k) (cc k) (ss k)) P) ident ks) A i j =
         foldl (\<lambda>A k. rotate_rows (pa k) (pb k) (cc k) (ss k) A) A ks i j"
  using ok i
proof (induction ks arbitrary: i rule: rev_induct)
  case Nil
  then show ?case by (simp add: mmul_ident_left)
next
  case (snoc k ks)
  let ?P = "foldl (\<lambda>P k. mmul m (rot (pa k) (pb k) (cc k) (ss k)) P) ident ks"
  let ?B = "foldl (\<lambda>A k. rotate_rows (pa k) (pb k) (cc k) (ss k) A) A ks"
  have k: "pa k < m" "pb k < m" "pa k \<noteq> pb k" using snoc.prems by auto
  have "mmul m (mmul m (rot (pa k) (pb k) (cc k) (ss k)) ?P) A i j =
        mmul m (rot (pa k) (pb k) (cc k) (ss k)) (mmul m ?P A) i j"
    by (rule mmul_assoc)
  also have "\<dots> = rotate_rows (pa k) (pb k) (cc k) (ss k) (mmul m ?P A) i j"
    using k snoc.prems by (simp add: mmul_rot_left)
  also have "\<dots> = rotate_rows (pa k) (pb k) (cc k) (ss k) ?B i j"
    using k snoc.prems snoc.IH by (intro rotate_rows_cong) auto
  finally show ?case by simp
qed

lemma foldr_rows_cong:
  assumes "\<forall>k \<in> set ks. pa k < m \<and> pb k < m" "\<And>l j. l < m \<Longrightarrow> X l j = Y l j" "i < m"
  shows "foldr (\<lambda>k A. rotate_rows (pa k) (pb k) (cc k) (ss k) A) ks X i j =
         foldr (\<lambda>k A. rotate_rows (pa k) (pb k) (cc k) (ss k) A) ks Y i j"
  using assms
proof (induction ks arbitrary: i j)
  case Nil
  then show ?case by simp
next
  case (Cons k ks)
  then show ?case by (simp, intro rotate_rows_cong) auto
qed

lemma backward_product_rows:
  assumes ok: "\<forall>k \<in> set ks. pa k < m \<and> pb k < m \<and> pa k \<noteq> pb k" and i: "i < m"
  shows "mmul m (foldl (\<lambda>P k. mmul m P (rot (pa k) (pb k) (cc k) (ss k))) ident ks) A i j =
         foldr (\<lambda>k A. rotate_rows (pa k) (pb k) (cc k) (ss k) A) ks A i j"
  using ok i
proof (induction ks arbitrary: A i j rule: rev_induct)
  case Nil
  then show ?case by (simp add: mmul_ident_left)
next
  case (snoc k ks)
  let ?P = "foldl (\<lambda>P k. mmul m P (rot (pa k) (pb k) (cc k) (ss k))) ident ks"
  let ?R = "rot (pa k) (pb k) (cc k) (ss k)"
  have k: "pa k < m" "pb k < m" "pa k \<noteq> pb k" using snoc.prems by auto
  have "mmul m (mmul m ?P ?R) A i j = mmul m ?P (mmul m ?R A) i j"
    by (rule mmul_assoc)
  also have "\<dots> = foldr (\<lambda>k A. rotate_rows (pa k) (pb k) (cc k) (ss k) A) ks (mmul m ?R A) i j"
    using snoc.IH snoc.prems by simp
  also have "\<dots> = foldr (\<lambda>k A. rotate_rows (pa k) (pb k) (cc k) (ss k) A) ks
                     (rotate_rows (pa k) (pb k) (cc k) (ss k) A) i j"
    using snoc.prems k by (intro foldr_rows_cong) (auto simp: mmul_rot_left)
  finally show ?case by simp
qed


section \<open>Products of rotations against sequences of column updates\<close>

lemma mmul_ident_right: "j < m \<Longrightarrow> mmul m A ident i j = A i j"
  unfolding mmul_def by (subst sum_upt_one [of j]) (auto simp: ident_def)

lemma mmul_cong_right:
  "(\<And>l. l < m \<Longrightarrow> B l j = B' l j) \<Longrightarrow> mmul m A B i j = mmul m A B' i j"
  unfolding mmul_def by (rule sum_upt_cong) simp

text \<open>
  Multiplying by an elementary rotation on the right rotates two columns, with the
  sine negated: \<open>P_k\<close> is the transpose of the column rotation with angle \<open>s\<close>.
\<close>

lemma mmul_rot_right:
  assumes ab: "a < m" "b < m" "a \<noteq> b" and j: "j < m"
  shows "mmul m A (rot a b c s) i j = rotate_cols a b c (- s) A i j"
proof -
  consider "j = a" | "j = b" | "j \<noteq> a" "j \<noteq> b" by blast
  then show ?thesis
  proof cases
    case 1
    then have "mmul m A (rot a b c s) i j = A i a * rot a b c s a j + A i b * rot a b c s b j"
      unfolding mmul_def using ab by (intro sum_upt_two) (auto simp: rot_def ident_def)
    then show ?thesis using 1 ab by (simp add: rot_def rotate_cols_def)
  next
    case 2
    then have "mmul m A (rot a b c s) i j = A i a * rot a b c s a j + A i b * rot a b c s b j"
      unfolding mmul_def using ab by (intro sum_upt_two) (auto simp: rot_def ident_def)
    then show ?thesis using 2 ab by (simp add: rot_def rotate_cols_def)
  next
    case 3
    then have "mmul m A (rot a b c s) i j = A i j"
      unfolding mmul_def using j by (subst sum_upt_one [of j]) (auto simp: rot_def ident_def)
    then show ?thesis using 3 by (simp add: rotate_cols_def)
  qed
qed

lemma rotate_cols_cong:
  "(\<And>l. l < m \<Longrightarrow> X i l = Y i l) \<Longrightarrow> a < m \<Longrightarrow> b < m \<Longrightarrow> j < m \<Longrightarrow>
   rotate_cols a b c s X i j = rotate_cols a b c s Y i j"
  by (simp add: rotate_cols_def)

lemma foldr_cols_cong:
  assumes "\<forall>k \<in> set ks. pa k < m \<and> pb k < m" "\<And>i l. l < m \<Longrightarrow> X i l = Y i l" "j < m"
  shows "foldr (\<lambda>k A. rotate_cols (pa k) (pb k) (cc k) (ss k) A) ks X i j =
         foldr (\<lambda>k A. rotate_cols (pa k) (pb k) (cc k) (ss k) A) ks Y i j"
  using assms
proof (induction ks arbitrary: i j)
  case Nil
  then show ?case by simp
next
  case (Cons k ks)
  then show ?case by (simp, intro rotate_cols_cong) auto
qed

text \<open>
  Post-multiplying \<open>A\<close> by a product built by pre-multiplication (Forward) applies the
  column rotations in reverse list order; by one built by post-multiplication
  (Backward), in list order.
\<close>

lemma forward_product_cols:
  assumes ok: "\<forall>k \<in> set ks. pa k < m \<and> pb k < m \<and> pa k \<noteq> pb k" and j: "j < m"
  shows "mmul m A (foldl (\<lambda>P k. mmul m (rot (pa k) (pb k) (cc k) (ss k)) P) ident ks) i j =
         foldr (\<lambda>k A. rotate_cols (pa k) (pb k) (cc k) (- ss k) A) ks A i j"
  using ok j
proof (induction ks arbitrary: A i j rule: rev_induct)
  case Nil
  then show ?case by (simp add: mmul_ident_right)
next
  case (snoc k ks)
  let ?P = "foldl (\<lambda>P k. mmul m (rot (pa k) (pb k) (cc k) (ss k)) P) ident ks"
  let ?R = "rot (pa k) (pb k) (cc k) (ss k)"
  have k: "pa k < m" "pb k < m" "pa k \<noteq> pb k" using snoc.prems by auto
  have "mmul m A (mmul m ?R ?P) i j = mmul m (mmul m A ?R) ?P i j"
    by (rule mmul_assoc [symmetric])
  also have "\<dots> = foldr (\<lambda>k A. rotate_cols (pa k) (pb k) (cc k) (- ss k) A) ks (mmul m A ?R) i j"
    using snoc.IH snoc.prems by simp
  also have "\<dots> = foldr (\<lambda>k A. rotate_cols (pa k) (pb k) (cc k) (- ss k) A) ks
                     (rotate_cols (pa k) (pb k) (cc k) (- ss k) A) i j"
    using snoc.prems k by (intro foldr_cols_cong) (auto simp: mmul_rot_right)
  finally show ?case by simp
qed

lemma backward_product_cols:
  assumes ok: "\<forall>k \<in> set ks. pa k < m \<and> pb k < m \<and> pa k \<noteq> pb k" and j: "j < m"
  shows "mmul m A (foldl (\<lambda>P k. mmul m P (rot (pa k) (pb k) (cc k) (ss k))) ident ks) i j =
         foldl (\<lambda>A k. rotate_cols (pa k) (pb k) (cc k) (- ss k) A) A ks i j"
  using ok j
proof (induction ks arbitrary: i j rule: rev_induct)
  case Nil
  then show ?case by (simp add: mmul_ident_right)
next
  case (snoc k ks)
  let ?P = "foldl (\<lambda>P k. mmul m P (rot (pa k) (pb k) (cc k) (ss k))) ident ks"
  let ?B = "foldl (\<lambda>A k. rotate_cols (pa k) (pb k) (cc k) (- ss k) A) A ks"
  have k: "pa k < m" "pb k < m" "pa k \<noteq> pb k" using snoc.prems by auto
  have "mmul m A (mmul m ?P (rot (pa k) (pb k) (cc k) (ss k))) i j =
        mmul m (mmul m A ?P) (rot (pa k) (pb k) (cc k) (ss k)) i j"
    by (rule mmul_assoc [symmetric])
  also have "\<dots> = rotate_cols (pa k) (pb k) (cc k) (- ss k) (mmul m A ?P) i j"
    using k snoc.prems by (simp add: mmul_rot_right)
  also have "\<dots> = rotate_cols (pa k) (pb k) (cc k) (- ss k) ?B i j"
    using k snoc.prems snoc.IH by (intro rotate_cols_cong) auto
  finally show ?case by simp
qed


section \<open>The test's reference against the implicit update\<close>

lemma plane_lapack:
  "pivot \<noteq> Bottom \<Longrightarrow> plane pivot n k = lapack_plane pivot n k"
  by (cases pivot) (simp_all add: plane_def lapack_plane_def)

lemma lapack_plane_ok:
  "pivot \<noteq> Bottom \<Longrightarrow> k + 1 < m \<Longrightarrow>
   fst (lapack_plane pivot m k) < m \<and> snd (lapack_plane pivot m k) < m \<and>
   fst (lapack_plane pivot m k) \<noteq> snd (lapack_plane pivot m k)"
  by (cases pivot) (simp_all add: lapack_plane_def)

lemma cumulative_rows:
  assumes piv: "pivot \<noteq> Bottom" and i: "i < m"
  shows "mmul m (cumulative pivot direct m c s (m - 1)) A i j = dlasr_left pivot direct m c s A i j"
proof -
  let ?pa = "\<lambda>k. fst (lapack_plane pivot m k)" and ?pb = "\<lambda>k. snd (lapack_plane pivot m k)"
  have ok: "\<forall>k \<in> set [0..<m - 1]. ?pa k < m \<and> ?pb k < m \<and> ?pa k \<noteq> ?pb k"
    using lapack_plane_ok [OF piv] by auto
  have rk: "rot_k pivot m c s = (\<lambda>k. rot (?pa k) (?pb k) (c ! k) (s ! k))"
    by (simp add: fun_eq_iff rot_k_def plane_lapack [OF piv])
  show ?thesis
  proof (cases "direct = Forward")
    case True
    then show ?thesis
      using forward_product_rows [OF ok i, of "\<lambda>k. c ! k" "\<lambda>k. s ! k" A j]
      by (simp add: cumulative_def dlasr_left_def rk)
  next
    case False
    then show ?thesis
      using backward_product_rows [OF ok i, of "\<lambda>k. c ! k" "\<lambda>k. s ! k" A j]
      by (simp add: cumulative_def dlasr_left_def rk foldr_conv_foldl)
  qed
qed



lemma dlasr_right_uminus:
  "length s = m - 1 \<Longrightarrow>
   dlasr_right pivot direct m c (map uminus s) A =
     foldl (\<lambda>A k. rotate_cols (fst (lapack_plane pivot m k)) (snd (lapack_plane pivot m k)) (c ! k) (- (s ! k)) A)
       A (if direct = Forward then [0..<m - 1] else rev [0..<m - 1])"
  unfolding dlasr_right_def by (rule foldl_cong) (auto split: if_splits)

lemma cumulative_cols:
  assumes piv: "pivot \<noteq> Bottom" and j: "j < m" and len: "length s = m - 1"
  shows "mmul m A (cumulative pivot direct m c s (m - 1)) i j =
         dlasr_right pivot (if direct = Forward then Backward else Forward) m c (map uminus s) A i j"
proof -
  let ?pa = "\<lambda>k. fst (lapack_plane pivot m k)" and ?pb = "\<lambda>k. snd (lapack_plane pivot m k)"
  have ok: "\<forall>k \<in> set [0..<m - 1]. ?pa k < m \<and> ?pb k < m \<and> ?pa k \<noteq> ?pb k"
    using lapack_plane_ok [OF piv] by auto
  have rk: "rot_k pivot m c s = (\<lambda>k. rot (?pa k) (?pb k) (c ! k) (s ! k))"
    by (simp add: fun_eq_iff rot_k_def plane_lapack [OF piv])
  show ?thesis
  proof (cases "direct = Forward")
    case True
    then show ?thesis
      using forward_product_cols [OF ok j, of A "\<lambda>k. c ! k" "\<lambda>k. s ! k" i] len
      by (simp add: cumulative_def dlasr_right_uminus rk foldr_conv_foldl)
  next
    case False
    then show ?thesis
      using backward_product_cols [OF ok j, of A "\<lambda>k. c ! k" "\<lambda>k. s ! k" i] len
      by (simp add: cumulative_def dlasr_right_uminus rk)
  qed
qed

text \<open>
  Claim C21 (equivalence).  For the Variable and Top pivots, the reference the test
  builds is the implicit update: applying its \<open>P\<close> to an \<open>m\<close>-row matrix with \<open>Gemm\<close>,
  as line 155 does, gives the matrix the rotations produce row by row, in the order the
  direction prescribes.  (The test never sees this: \<open>aMat\<close> is never filled.)
\<close>

theorem reference_matches_dlasr:
  assumes piv: "pivot \<noteq> Bottom" and m: "0 < m" and len: "length s = m - 1" "length c = length s"
    and a: "general_ok a" "rows a = int m" and z: "general_ok z" "rows z = int m" "cols z = cols a"
  shows "\<exists>p r. rotation_product pivot direct (int m) c s = Inr p \<and> gemm 1 p a 0 z = Inr r \<and>
           (\<forall>i < m. \<forall>j. int j < cols a \<longrightarrow> mat_of r i j = dlasr_left pivot direct m c s (mat_of a) i j)"
proof -
  obtain p where p: "rotation_product pivot direct (int m) c s = Inr p"
      "represents m p (cumulative pivot direct m c s (m - 1))"
    using rotation_product_cumulative [OF m len] by blast
  have sq: "is_square (int m) p" and mp: "\<And>i l. i < m \<Longrightarrow> l < m \<Longrightarrow> mat_of p i l = cumulative pivot direct m c s (m - 1) i l"
    using p(2) by (auto simp: represents_def)
  have okp: "general_ok p" using square_general_ok [OF m sq] .
  have shp: "cols p = rows a" "rows p = rows z" "cols a = cols z" using sq a z by (simp_all add: is_square_def)
  obtain r where r: "gemm 1 p a 0 z = Inr r" using gemm_Inr [OF okp a(1) z(1) shp, of 1 0] by blast
  have "mat_of r i j = dlasr_left pivot direct m c s (mat_of a) i j" if "i < m" "int j < cols a" for i j
  proof -
    have "mat_of r i j = mmul m (mat_of p) (mat_of a) i j"
      using gemm_refines [OF okp a(1) z(1) shp _ _ r] that sq z by (simp add: is_square_def mmul_def)
    also have "\<dots> = mmul m (cumulative pivot direct m c s (m - 1)) (mat_of a) i j"
      using mp that by (intro mmul_cong_left) simp
    also have "\<dots> = dlasr_left pivot direct m c s (mat_of a) i j"
      using cumulative_rows [OF piv that(1)] .
    finally show ?thesis .
  qed
  then show ?thesis using p(1) r by blast
qed


text \<open>
  Claim C23 (equivalence).  For side Right (Variable and Top pivots) the reference
  \<open>A P\<close> the test computes at line 157 is not LAPACK's \<open>A P^T\<close>: it is the column update
  of \<open>Dlasr\<close> with every sine negated and the opposite direction.
\<close>

theorem reference_right_reversed:
  assumes piv: "pivot \<noteq> Bottom" and n: "0 < n" and len: "length s = n - 1" "length c = length s"
    and a: "general_ok a" "cols a = int n" and z: "general_ok z" "rows z = rows a" "cols z = int n"
  shows "\<exists>p r. rotation_product pivot direct (int n) c s = Inr p \<and> gemm 1 a p 0 z = Inr r \<and>
           (\<forall>i j. int i < rows a \<longrightarrow> j < n \<longrightarrow>
              mat_of r i j = dlasr_right pivot (if direct = Forward then Backward else Forward) n c (map uminus s)
                               (mat_of a) i j)"
proof -
  obtain p where p: "rotation_product pivot direct (int n) c s = Inr p"
      "represents n p (cumulative pivot direct n c s (n - 1))"
    using rotation_product_cumulative [OF n len] by blast
  have sq: "is_square (int n) p"
    and mp: "\<And>l j. l < n \<Longrightarrow> j < n \<Longrightarrow> mat_of p l j = cumulative pivot direct n c s (n - 1) l j"
    using p(2) by (auto simp: represents_def)
  have okp: "general_ok p" using square_general_ok [OF n sq] .
  have shp: "cols a = rows p" "rows a = rows z" "cols p = cols z" using sq a z by (simp_all add: is_square_def)
  obtain r where r: "gemm 1 a p 0 z = Inr r" using gemm_Inr [OF a(1) okp z(1) shp, of 1 0] by blast
  have "mat_of r i j = dlasr_right pivot (if direct = Forward then Backward else Forward) n c (map uminus s)
                         (mat_of a) i j" if "int i < rows a" "j < n" for i j
  proof -
    have "mat_of r i j = mmul n (mat_of a) (mat_of p) i j"
      using gemm_refines [OF a(1) okp z(1) shp _ _ r] that z a by (simp add: mmul_def)
    also have "\<dots> = mmul n (mat_of a) (cumulative pivot direct n c s (n - 1)) i j"
      using mp that by (intro mmul_cong_right) simp
    also have "\<dots> = dlasr_right pivot (if direct = Forward then Backward else Forward) n c (map uminus s)
                      (mat_of a) i j"
      using cumulative_cols [OF piv that(2) len(1)] .
    finally show ?thesis .
  qed
  then show ?thesis using p(1) r by blast
qed

section \<open>Witnesses\<close>

theorem reference_matches_dlasr_witness:
  "\<exists>p r. rotation_product Variable Forward 2 [0] [1] = Inr p \<and>
     gemm 1 p \<lparr>rows = 2, cols = 2, stride = 2, gdata = [1, 0, 0, 1]\<rparr> 0
              \<lparr>rows = 2, cols = 2, stride = 2, gdata = [0, 0, 0, 0]\<rparr> = Inr r \<and>
     mat_of r 0 1 = 1 \<and> mat_of r 1 0 = -1"
proof -
  have "dlasr_left Variable Forward 2 [0] [1] (mat_of \<lparr>rows = 2, cols = 2, stride = 2, gdata = [1, 0, 0, 1]\<rparr>) 0 1 = 1"
       "dlasr_left Variable Forward 2 [0] [1] (mat_of \<lparr>rows = 2, cols = 2, stride = 2, gdata = [1, 0, 0, 1]\<rparr>) 1 0 = -1"
    by code_simp+
  then show ?thesis
    using reference_matches_dlasr [of Variable 2 "[1]" "[0]" "\<lparr>rows = 2, cols = 2, stride = 2, gdata = [1, 0, 0, 1]\<rparr>"
            "\<lparr>rows = 2, cols = 2, stride = 2, gdata = [0, 0, 0, 0]\<rparr>" Forward]
    by (auto simp: general_ok_def)
qed

theorem reference_right_reversed_witness:
  "\<exists>p r. rotation_product Variable Forward 2 [0] [1] = Inr p \<and>
     gemm 1 \<lparr>rows = 1, cols = 2, stride = 2, gdata = [1, 0]\<rparr> p 0
            \<lparr>rows = 1, cols = 2, stride = 2, gdata = [0, 0]\<rparr> = Inr r \<and>
     mat_of r 0 0 = 0 \<and> mat_of r 0 1 = 1"
proof -
  have "dlasr_right Variable Backward 2 [0] [- 1] (mat_of \<lparr>rows = 1, cols = 2, stride = 2, gdata = [1, 0]\<rparr>) 0 0 = 0"
       "dlasr_right Variable Backward 2 [0] [- 1] (mat_of \<lparr>rows = 1, cols = 2, stride = 2, gdata = [1, 0]\<rparr>) 0 1 = 1"
    by code_simp+
  then show ?thesis
    using reference_right_reversed [of Variable 2 "[1]" "[0]" "\<lparr>rows = 1, cols = 2, stride = 2, gdata = [1, 0]\<rparr>"
            "\<lparr>rows = 1, cols = 2, stride = 2, gdata = [0, 0]\<rparr>" Forward]
    by (auto simp: general_ok_def)
qed

end
