(* ===== verification/Float64Sort.thy ===== *)
theory Float64Sort
  imports Scalar "HOL-Library.Multiset"
begin

text \<open>
  Go's ordering of float64 values and \<open>sort.Float64s\<close>, which \<open>testChiSquared\<close> applies
  to its samples (line 76).  Go's \<open><\<close> on float64 is false whenever an operand is NaN;
  \<open>sort.Float64s\<close> sorts by \<open>Float64Slice.Less\<close>, \<open>x < y || (isNaN(x) && !isNaN(y))\<close>,
  which puts every NaN first.  With the two zeros one value (as in \<open>Scalar\<close>), this
  order is linear, so \<open>f64\<close> is an instance of \<open>linorder\<close> and the sorted permutation
  is unique: \<open>sort.Float64s\<close> (outside the repository, a pattern-defeating quicksort) is
  modelled by the library's \<open>sort\<close>, and the lemmas show that any sorted permutation
  is that list.
\<close>

text \<open>Go's \<open><\<close> on float64.\<close>

fun f64_lt :: "f64 \<Rightarrow> f64 \<Rightarrow> bool" where
  "f64_lt (Fin a) (Fin b) = (a < b)"
| "f64_lt NegInf (Fin _) = True"
| "f64_lt NegInf PosInf = True"
| "f64_lt (Fin _) PosInf = True"
| "f64_lt _ _ = False"

text \<open>\<open>Float64Slice.Less\<close>: \<open>x < y || (isNaN(x) && !isNaN(y))\<close>.\<close>

definition float64_less :: "f64 \<Rightarrow> f64 \<Rightarrow> bool" where
  "float64_less x y = (f64_lt x y \<or> (is_nan x \<and> \<not> is_nan y))"

instantiation f64 :: linorder
begin

definition less_f64 :: "f64 \<Rightarrow> f64 \<Rightarrow> bool" where
  "less_f64 x y = float64_less x y"

definition less_eq_f64 :: "f64 \<Rightarrow> f64 \<Rightarrow> bool" where
  "less_eq_f64 x y = (x < y \<or> x = y)"

instance
proof (standard, goal_cases less refl trans antisym total)
  case (less x y)
  then show ?case by (cases x; cases y) (auto simp: less_f64_def float64_less_def less_eq_f64_def is_nan_def)
next
  case (refl x)
  then show ?case by (simp add: less_eq_f64_def)
next
  case (trans x y z)
  then show ?case by (cases x; cases y; cases z) (auto simp: less_f64_def float64_less_def less_eq_f64_def is_nan_def)
next
  case (antisym x y)
  then show ?case by (cases x; cases y) (auto simp: less_f64_def float64_less_def less_eq_f64_def is_nan_def)
next
  case (total x y)
  then show ?case by (cases x; cases y) (auto simp: less_f64_def float64_less_def less_eq_f64_def is_nan_def)
qed

end

text \<open>\<open>sort.Float64s\<close>: the slice sorted by \<open>Float64Slice.Less\<close>.\<close>

definition Float64s :: "f64 list \<Rightarrow> f64 list" where
  "Float64s x = sort x"

section \<open>Lemmas\<close>

lemma NaN_least: "NaN \<le> x"
  by (cases x) (simp_all add: less_eq_f64_def less_f64_def float64_less_def is_nan_def)

lemma le_NaN_iff: "x \<le> NaN \<longleftrightarrow> x = NaN"
  by (cases x) (simp_all add: less_eq_f64_def less_f64_def float64_less_def is_nan_def)

lemma Fin_le_Fin [simp]: "Fin a \<le> Fin b \<longleftrightarrow> a \<le> b"
  by (auto simp: less_eq_f64_def less_f64_def float64_less_def is_nan_def)

lemma sorted_Float64s: "sorted (Float64s x)"
  by (simp add: Float64s_def)

lemma mset_Float64s: "mset (Float64s x) = mset x"
  by (simp add: Float64s_def)

lemma filter_is_nan_replicate: "filter is_nan x = replicate (count (mset x) NaN) NaN"
  by (induction x) (auto simp: is_nan_def)

text \<open>Any sorting algorithm meeting \<open>sort.Float64s\<close>'s contract returns \<open>Float64s\<close>.\<close>

lemma Float64s_unique:
  assumes "sorted ys" "mset ys = mset x"
  shows "ys = Float64s x"
  using properties_for_sort [OF assms(2) assms(1)] by (simp add: Float64s_def)

text \<open>The NaNs first, then the other values in Go's \<open><\<close> order.\<close>

lemma Float64s_nan_first:
  "Float64s x = filter is_nan x @ Float64s (filter (\<lambda>v. \<not> is_nan v) x)"
proof -
  have "sorted (filter is_nan x @ Float64s (filter (\<lambda>v. \<not> is_nan v) x))"
    by (simp add: sorted_append sorted_Float64s filter_is_nan_replicate NaN_least)
  moreover have "mset (filter is_nan x @ Float64s (filter (\<lambda>v. \<not> is_nan v) x)) = mset x"
    by (simp add: mset_Float64s)
  ultimately show ?thesis
    using properties_for_sort [of "filter is_nan x @ Float64s (filter (\<lambda>v. \<not> is_nan v) x)" x]
    by (simp add: Float64s_def)
qed

end
