(* ===== verification/ChiSquared.thy ===== *)
theory ChiSquared
  imports Float64Sort Rand
begin

text \<open>
  The ChiSquared tests of \<open>src/unnamed/part_000\<close> (package \<open>distuv\<close>).  The
  distribution's methods (\<open>Prob\<close>, \<open>CDF\<close>, \<open>Mode\<close>, \<open>NumParameters\<close>, \<open>Survival\<close>,
  \<open>Rand\<close>) are outside the repository and are a parameter of the model, a record of
  functions (\<open>dist_ops\<close>), as the kernel is in the other harnesses; \<open>Rand\<close> takes
  the state of the generator behind \<open>c.Src\<close> and returns it advanced.  \<open>testChiSquared\<close>
  is modelled whole: the slice of a million samples, \<open>generateSamples\<close> (a helper of
  \<open>distuv\<close>, modelled from its loop), \<open>sort.Float64s\<close> (\<open>Float64Sort\<close>), the
  sample-based checks (\<open>testRandLogProbContinuous\<close>, \<open>checkMean\<close>, ..., outside the
  repository: one more parameter, \<open>stat\<close>, given the sorted samples) and the
  deterministic checks, with the generator threaded through the three distributions of
  \<open>TestChiSquared\<close> that share it.
\<close>

text \<open>\<open>distuv.ChiSquared{K, Src}\<close>: degrees of freedom and the random source.\<close>

record chiSquared =
  chi_K :: real
  chi_Src :: "rng option"

record dist_ops =
  op_prob :: "chiSquared \<Rightarrow> f64 \<Rightarrow> f64"
  op_cdf :: "chiSquared \<Rightarrow> f64 \<Rightarrow> f64"
  op_mode :: "chiSquared \<Rightarrow> f64"
  op_numParameters :: "chiSquared \<Rightarrow> int"
  op_survival :: "chiSquared \<Rightarrow> f64 \<Rightarrow> f64"
  op_rand :: "chiSquared \<Rightarrow> rng \<Rightarrow> f64 \<times> rng"

text \<open>The \<open>t.Errorf\<close> reports of the three tests, with the values they print.\<close>

datatype chisq_error =
    PdfMismatch real real f64 real
  | CdfMismatch real real f64 real
  | ModeMismatch f64 f64
  | NumParametersMismatch int
  | SurvivalMismatch f64
  | StatisticalCheck nat string

definition prob_table :: "(real \<times> real \<times> real) list" where
  "prob_table =
     [(10, 3, 0.0085003666025203432), (2.3, 3, 0.19157345407042367), (0.8, 0.2, 0.080363259903912673)]"

definition cdf_table :: "(real \<times> real \<times> real) list" where
  "cdf_table =
     [(0, 1, 0), (0.01, 5, 0.00000053002700426865167), (0.05, 3, 0.002929332764619924),
      (0.5, 2, 0.22119921692859512), (0.95, 3, 0.1866520918701263), (0.99, 5, 0.036631697220869196),
      (1, 1, 0.68268949213708596), (1.5, 4, 0.17335853270322427), (10, 10, 0.55950671493478743),
      (25, 15, 0.95005656637357172)]"

text \<open>
  The loop body shared by \<open>TestChiSquaredProb\<close> and \<open>TestChiSquaredCDF\<close>: evaluate the
  method on \<open>ChiSquared{k, nil}\<close> at \<open>x\<close> and report the row unless the value is within
  \<open>1e-10\<close> absolutely or relatively of the expected one.
\<close>

definition table_check :: "(real \<Rightarrow> real \<Rightarrow> f64 \<Rightarrow> real \<Rightarrow> chisq_error) \<Rightarrow> (chiSquared \<Rightarrow> f64 \<Rightarrow> f64) \<Rightarrow>
    (real \<times> real \<times> real) list \<Rightarrow> chisq_error list" where
  "table_check err f tbl =
     concat (map (\<lambda>(x, k, want).
         let v = f \<lparr>chi_K = k, chi_Src = None\<rparr> (Fin x)
         in if \<not> equal_within_abs_or_rel v (Fin want) (1 / 10 ^ 10) (1 / 10 ^ 10) then [err x k v want] else [])
       tbl)"

definition TestChiSquaredProb :: "dist_ops \<Rightarrow> chisq_error list" where
  "TestChiSquaredProb ops = table_check PdfMismatch (op_prob ops) prob_table"

definition TestChiSquaredCDF :: "dist_ops \<Rightarrow> chisq_error list" where
  "TestChiSquaredCDF ops = table_check CdfMismatch (op_cdf ops) cdf_table"

text \<open>
  \<open>n\<close> successive samples of a \<open>Rander\<close> (a method \<open>Rand()\<close> drawing from the generator
  state it is given): the reference for \<open>generateSamples\<close>.
\<close>

primrec draws :: "(rng \<Rightarrow> f64 \<times> rng) \<Rightarrow> nat \<Rightarrow> rng \<Rightarrow> f64 list \<times> rng" where
  "draws rand 0 r = ([], r)"
| "draws rand (Suc n) r = (let (vs, r) = draws rand n r; (v, r) = rand r in (vs @ [v], r))"

text \<open>\<open>generateSamples(x, r)\<close> of \<open>distuv\<close>: \<open>for i := range x { x[i] = r.Rand() }\<close>.\<close>

definition generateSamples :: "(rng \<Rightarrow> f64 \<times> rng) \<Rightarrow> f64 list \<Rightarrow> rng \<Rightarrow> (f64 list \<times> rng) go" where
  "generateSamples rand x r =
     go_fold (\<lambda>i (x, r). let (v, r) = rand r in go_bind (go_store x i v) (\<lambda>x. Inr (x, r)))
       (go_range (int (length x))) (x, r)"

text \<open>
  The deterministic checks of \<open>testChiSquared\<close> (lines 85--95): \<open>Mode\<close> against
  \<open>math.Max(K-2, 0)\<close> with Go's \<open>!=\<close> (a NaN mode is reported), \<open>NumParameters\<close>
  against 1 and \<open>Survival(-0.00001)\<close> against 1.
\<close>

definition chi_checks :: "dist_ops \<Rightarrow> chiSquared \<Rightarrow> chisq_error list" where
  "chi_checks ops c =
     (let expectedMode = Fin (max (chi_K c - 2) 0)
      in if \<not> f64_eq (op_mode ops c) expectedMode then [ModeMismatch (op_mode ops c) expectedMode] else []) @
     (if op_numParameters ops c \<noteq> 1 then [NumParametersMismatch (op_numParameters ops c)] else []) @
     (let survival = op_survival ops c (Fin (- 0.00001))
      in if \<not> f64_eq survival (Fin 1) then [SurvivalMismatch survival] else [])"

text \<open>
  \<open>testChiSquared\<close>: \<open>x := make([]float64, n)\<close> with \<open>n = 1e6\<close>, \<open>generateSamples(x, c)\<close>
  drawing from the generator shared through \<open>c.Src\<close> (threaded explicitly), \<open>sort.Float64s(x)\<close>,
  the sample-based checks \<open>stat\<close> on the sorted samples, then the deterministic checks.
\<close>

definition testChiSquared :: "dist_ops \<Rightarrow> (chiSquared \<Rightarrow> nat \<Rightarrow> f64 list \<Rightarrow> chisq_error list) \<Rightarrow>
    chiSquared \<Rightarrow> nat \<Rightarrow> rng \<Rightarrow> (chisq_error list \<times> rng) go" where
  "testChiSquared ops stat c i r =
     go_bind (go_make 1000000 (Fin 0)) (\<lambda>x.
     go_bind (generateSamples (op_rand ops c) x r) (\<lambda>(x, r).
       let x = Float64s x in Inr (stat c i x @ chi_checks ops c, r)))"

text \<open>
  \<open>TestChiSquared\<close>: one generator \<open>src\<close>, shared by the three distributions, and
  \<open>testChiSquared\<close> on each in order with its index; the errors are collected in order.
\<close>

definition TestChiSquared :: "dist_ops \<Rightarrow> (chiSquared \<Rightarrow> nat \<Rightarrow> f64 list \<Rightarrow> chisq_error list) \<Rightarrow> rng \<Rightarrow>
    chisq_error list go" where
  "TestChiSquared ops stat src =
     go_bind (go_fold (\<lambda>(i, b) (errs, r). go_bind (testChiSquared ops stat b i r) (\<lambda>(e, r). Inr (errs @ e, r)))
       (enumerate 0 [\<lparr>chi_K = 3, chi_Src = Some src\<rparr>, \<lparr>chi_K = 1.5, chi_Src = Some src\<rparr>,
                     \<lparr>chi_K = 0.9, chi_Src = Some src\<rparr>]) ([], src))
     (\<lambda>(errs, _). Inr errs)"

section \<open>Lemmas\<close>

lemma length_draws [simp]: "length (fst (draws rand n r)) = n"
  by (induction n) (simp_all add: split_def Let_def)

lemma update_after_prefix:
  "length ys = k \<Longrightarrow> k < length x \<Longrightarrow> (ys @ drop k x)[k := v] = ys @ v # drop (Suc k) x"
  by (simp add: list_update_append Cons_nth_drop_Suc [symmetric])

lemma generateSamples_prefix:
  assumes "k \<le> length x"
  shows "go_fold (\<lambda>i (x, r). let (v, r) = rand r in go_bind (go_store x i v) (\<lambda>x. Inr (x, r)))
           (map int [0..<k]) (x, r) =
         Inr (fst (draws rand k r) @ drop k x, snd (draws rand k r))"
  using assms
proof (induction k)
  case 0
  then show ?case by simp
next
  case (Suc k)
  obtain vs r1 where d: "draws rand k r = (vs, r1)" by fastforce
  obtain v r2 where s: "rand r1 = (v, r2)" by fastforce
  have "length vs = k" using length_draws [of rand k r] d by simp
  then have "go_store (vs @ drop k x) (int k) v = Inr (vs @ v # drop (Suc k) x)"
    using Suc.prems by (simp add: go_store_def update_after_prefix)
  then show ?case using Suc d s by (simp add: go_fold_append)
qed

lemma draws_nth:
  "fst (draws rand n r) = map (\<lambda>i. fst (rand (snd (draws rand i r)))) [0..<n]"
  by (induction n) (simp_all add: split_def Let_def)

lemma go_make_samples: "go_make 1000000 (Fin 0) = Inr (replicate 1000000 (Fin 0))"
  by (simp add: go_make_def)

lemma generateSamples_eq:
  "generateSamples rand x r = Inr (draws rand (length x) r)"
  using generateSamples_prefix [of "length x" x rand r]
  by (simp add: generateSamples_def go_range_def)

lemma testChiSquared_eq:
  "testChiSquared ops stat c i r =
     Inr (let (x, r) = draws (op_rand ops c) 1000000 r in (stat c i (Float64s x) @ chi_checks ops c, r))"
  by (simp add: testChiSquared_def go_make_samples generateSamples_eq split_def Let_def)

lemma chi_checks_Nil:
  assumes "\<forall>c. op_mode ops c = Fin (max (chi_K c - 2) 0)" "\<forall>c. op_numParameters ops c = 1"
    and "\<forall>c. op_survival ops c (Fin (- 0.00001)) = Fin 1"
  shows "chi_checks ops c = []"
  using assms by (simp add: chi_checks_def f64_eq_def)

text \<open>
  Claim C16.  For a distribution whose \<open>Mode\<close> is \<open>max(K-2, 0)\<close>, whose
  \<open>NumParameters\<close> is 1 and whose \<open>Survival\<close> at \<open>-0.00001\<close> is 1, \<open>TestChiSquared\<close>
  never panics and reports exactly what the sample-based checks report, for
  \<open>K = 3, 1.5, 0.9\<close> with the indices 0, 1, 2 in that order; each check sees the next
  million samples of the one shared source, sorted.
\<close>

theorem TestChiSquared_reports_statistical_only:
  assumes "\<forall>c. op_mode ops c = Fin (max (chi_K c - 2) 0)" "\<forall>c. op_numParameters ops c = 1"
    and "\<forall>c. op_survival ops c (Fin (- 0.00001)) = Fin 1"
  shows "TestChiSquared ops stat src =
           (let c0 = \<lparr>chi_K = 3, chi_Src = Some src\<rparr>; c1 = \<lparr>chi_K = 1.5, chi_Src = Some src\<rparr>;
                c2 = \<lparr>chi_K = 0.9, chi_Src = Some src\<rparr>;
                (x0, r1) = draws (op_rand ops c0) 1000000 src;
                (x1, r2) = draws (op_rand ops c1) 1000000 r1;
                (x2, _) = draws (op_rand ops c2) 1000000 r2
            in Inr (stat c0 0 (Float64s x0) @ stat c1 1 (Float64s x1) @ stat c2 2 (Float64s x2)))"
  using chi_checks_Nil [OF assms]
  by (simp add: TestChiSquared_def testChiSquared_eq numeral_2_eq_2 split_def Let_def)

text \<open>
  Claim C22.  \<open>testChiSquared\<close> never panics; its checks receive, sorted, the million
  samples \<open>generateSamples\<close> draws, slot \<open>j\<close> being the sample drawn from the generator as
  the first \<open>j\<close> samples left it; the shared generator ends advanced past all of them.
\<close>

theorem testChiSquared_samples:
  "testChiSquared ops stat c i r =
     Inr (stat c i (Float64s (map (\<lambda>j. fst (op_rand ops c (snd (draws (op_rand ops c) j r)))) [0..<1000000]))
            @ chi_checks ops c,
          snd (draws (op_rand ops c) 1000000 r))"
  by (simp add: testChiSquared_eq split_def Let_def draws_nth [symmetric])

section \<open>Witnesses\<close>

theorem TestChiSquared_reports_statistical_only_witness:
  "TestChiSquared \<lparr>op_prob = \<lambda>_ x. x, op_cdf = \<lambda>_ x. x, op_mode = \<lambda>c. Fin (max (chi_K c - 2) 0),
                   op_numParameters = \<lambda>_. 1,
                   op_survival = \<lambda>_ x. (case x of Fin r \<Rightarrow> if r < 0 then Fin 1 else Fin 0 | _ \<Rightarrow> NaN),
                   op_rand = \<lambda>_ r. (Fin 0, r)\<rparr>
     (\<lambda>c i x. if i = 1 then [StatisticalCheck i ''mean''] else []) \<lparr>rng_draw = \<lambda>_. 0, rng_pos = 0\<rparr> =
   Inr [StatisticalCheck 1 ''mean'']"
  using TestChiSquared_reports_statistical_only
          [of "\<lparr>op_prob = \<lambda>_ x. x, op_cdf = \<lambda>_ x. x, op_mode = \<lambda>c. Fin (max (chi_K c - 2) 0),
               op_numParameters = \<lambda>_. 1,
               op_survival = \<lambda>_ x. (case x of Fin r \<Rightarrow> if r < 0 then Fin 1 else Fin 0 | _ \<Rightarrow> NaN),
               op_rand = \<lambda>_ r. (Fin 0, r)\<rparr>"
              "\<lambda>c i x. if i = 1 then [StatisticalCheck i ''mean''] else []" "\<lparr>rng_draw = \<lambda>_. 0, rng_pos = 0\<rparr>"]
  by (simp add: Let_def split_def)

end
