(* ===== verification/RandSlices.thy ===== *)
theory RandSlices
  imports Rand
begin

text \<open>
  \<open>randomSlice\<close> and \<open>randSlice\<close> of \<open>asm_test.go\<close>: a slice of \<open>(n-1)*|inc|+1\<close>
  uniform draws, just long enough for \<open>n\<close> elements at stride \<open>|inc|\<close>.  \<open>randSlice\<close>
  draws from the generator it is given, \<open>randomSlice\<close> from the package-level generator
  of \<open>math/rand\<close>; both are the same loop on an explicit generator state, returned with
  the slice.  Go's \<open>int\<close> is unbounded here: \<open>-inc\<close> for the least 64-bit integer is
  not modelled.
\<close>

definition randSlice :: "int \<Rightarrow> int \<Rightarrow> rng \<Rightarrow> (real list \<times> rng) go" where
  "randSlice n inc r =
     (let inc = (if inc < 0 then - inc else inc)
      in go_bind (go_make ((n - 1) * inc + 1) 0) (\<lambda>x. fill_random x r))"

definition randomSlice :: "int \<Rightarrow> int \<Rightarrow> rng \<Rightarrow> (real list \<times> rng) go" where
  "randomSlice n inc global =
     (let inc = (if inc < 0 then - inc else inc)
      in go_bind (go_make ((n - 1) * inc + 1) 0) (\<lambda>x. fill_random x global))"

section \<open>Lemmas\<close>

lemma randSlice_len_nonneg:
  assumes "1 \<le> (n::int)"
  shows "0 \<le> (n - 1) * \<bar>inc\<bar> + 1"
proof -
  have "0 \<le> (n - 1) * \<bar>inc\<bar>" using assms by simp
  then show ?thesis by simp
qed

text \<open>
  Claim C12.  For \<open>n \<ge> 1\<close>, \<open>randSlice n inc r\<close> returns the next \<open>(n-1)*|inc|+1\<close>
  draws of \<open>r\<close>, in order, and the generator advanced past them; every element of
  a strided vector of length \<open>n\<close> and stride \<open>|inc|\<close> lies inside it.
\<close>

theorem randSlice_draws:
  assumes "1 \<le> n"
  shows "randSlice n inc r =
           Inr (rng_stream r (nat ((n - 1) * \<bar>inc\<bar> + 1)),
                r\<lparr>rng_pos := rng_pos r + nat ((n - 1) * \<bar>inc\<bar> + 1)\<rparr>) \<and>
         (\<forall>i. 0 \<le> i \<longrightarrow> i < n \<longrightarrow> i * \<bar>inc\<bar> < (n - 1) * \<bar>inc\<bar> + 1)"
proof
  have "(if inc < 0 then - inc else inc) = \<bar>inc\<bar>" by simp
  then show "randSlice n inc r =
           Inr (rng_stream r (nat ((n - 1) * \<bar>inc\<bar> + 1)),
                r\<lparr>rng_pos := rng_pos r + nat ((n - 1) * \<bar>inc\<bar> + 1)\<rparr>)"
    using randSlice_len_nonneg [OF assms, of inc]
    by (simp add: randSlice_def go_make_def fill_random_eq Let_def)
  show "\<forall>i. 0 \<le> i \<longrightarrow> i < n \<longrightarrow> i * \<bar>inc\<bar> < (n - 1) * \<bar>inc\<bar> + 1"
  proof (intro allI impI)
    fix i :: int assume "0 \<le> i" "i < n"
    then have "i * \<bar>inc\<bar> \<le> (n - 1) * \<bar>inc\<bar>" by (intro mult_right_mono) auto
    then show "i * \<bar>inc\<bar> < (n - 1) * \<bar>inc\<bar> + 1" by simp
  qed
qed

text \<open>
  Claim C13 (error path).  With \<open>n = 0\<close> and a stride of magnitude at least 2 the length
  \<open>(n-1)*|inc|+1\<close> is negative and \<open>make\<close> panics; the spec allows empty vectors.
\<close>

theorem randSlice_empty_panics:
  assumes "2 \<le> \<bar>inc\<bar>"
  shows "randSlice 0 inc r = Inl MakeLenOutOfRange"
  using assms by (simp add: randSlice_def go_make_def abs_if split: if_splits)

section \<open>Witnesses\<close>

theorem randSlice_draws_witness:
  "randSlice 3 (-2) \<lparr>rng_draw = \<lambda>i. real i / 10, rng_pos = 4\<rparr> =
     Inr ([4 / 10, 5 / 10, 6 / 10, 7 / 10, 8 / 10], \<lparr>rng_draw = \<lambda>i. real i / 10, rng_pos = 9\<rparr>)"
  using randSlice_draws [of 3 "-2" "\<lparr>rng_draw = \<lambda>i. real i / 10, rng_pos = 4\<rparr>"]
  by (simp add: rng_stream_def upt_rec)

theorem randSlice_empty_panics_witness:
  "randSlice 0 (-3) \<lparr>rng_draw = \<lambda>_. 0, rng_pos = 0\<rparr> = Inl MakeLenOutOfRange"
  using randSlice_empty_panics [of "-3" "\<lparr>rng_draw = \<lambda>_. 0, rng_pos = 0\<rparr>"] by simp

end
