(* ===== verification/Spec2Isabelle.thy ===== *)
theory Spec2Isabelle
  imports IncGuards IncSets DlasrRef ChiSquared RandSlices
begin

text \<open>
  \<^bold>\<open>A verification model of gonum's kernel test harnesses.\<close>

  \<^medskip>
  \<^bold>\<open>The program.\<close>  The repository holds test scaffolding, not numeric kernels:
  \<^item> \<open>src/internal/asm/f64/asm_test.go\<close>: guarded buffers for the strided float64
    kernels (\<open>newGuardedVector\<close>, \<open>allNaN\<close>, \<open>equalStrided\<close>, \<open>nonStridedWrite\<close>,
    \<open>guardVector\<close>, \<open>isValidGuard\<close>, \<open>guardIncVector\<close>, \<open>checkValidIncGuard\<close>), the
    oracle \<open>sameApprox\<close>, the configuration enumerators \<open>newIncSet\<close>, \<open>newIncToSet\<close>
    and the random slices \<open>randomSlice\<close>, \<open>randSlice\<close>;
  \<^item> \<open>src/lapack/testlapack/dlasr.go\<close>: \<open>DlasrTest\<close>, which checks an implementation of
    \<open>Dlasr\<close> (a sequence of plane rotations applied to a matrix) against an explicit
    rotation matrix built with \<open>blas64.Gemm\<close>;
  \<^item> \<open>src/unnamed/part_000\<close>: the ChiSquared tests of package \<open>distuv\<close>.
  A harness prepares inputs, calls the code under test (a kernel, a \<open>Dlasrer\<close>, a
  distribution), then validates the result with the guard checks, the oracle or the
  reference model; the enumerators and the seeded generator drive the trials.

  \<^medskip>
  \<^bold>\<open>Go semantics\<close> (\<open>Go_Prelude\<close>).  A computation that may panic has type
  \<open>'a go = panic + 'a\<close>; \<open>go_make\<close>, \<open>go_index\<close>, \<open>go_store\<close>, \<open>go_slice\<close>, \<open>go_copy\<close>,
  \<open>go_div\<close> and \<open>go_mod\<close> are Go's built-ins with their panics and Go's truncating
  division; loops are \<open>go_fold\<close> (with state), \<open>go_find\<close> (early return) and
  \<open>go_emit\<close> (collected \<open>t.Errorf\<close> reports).  Slices sharing a backing array are one
  list and the bounds of each view (\<open>Guarded.gvec\<close>).  \<open>int\<close> is unbounded:
  no 64-bit overflow is reachable with the sizes the tests use, and none is modelled.
  float64 values are \<open>Scalar.f64\<close> (finite real, the infinities, NaN) without rounding.

  \<^medskip>
  \<^bold>\<open>Theories and what they show.\<close>
  \<^item> \<open>Scalar\<close>: the oracle; \<open>sameApprox\<close> is reflexive, NaN included (the \<open>Same ||\<close> disjunct).
  \<^item> \<open>Guarded\<close>: the guarded-vector builder and its checks.  The buffer has
    well-formed views; its checks pass exactly when every write stays on the strided
    footprint; a fresh buffer validates; the panic on empty data for \<open>|inc| \<ge> 2\<close>.
  \<^item> \<open>IncGuards\<close>: the fixed-length and incremented guards.  \<open>guardVector\<close> and
    \<open>isValidGuard\<close> round trip; \<open>checkValidIncGuard\<close> skips every slot on the stride
    lattice, guard slots included, yet never raises a false alarm on
    \<open>guardIncVector\<close>'s output.
  \<^item> \<open>IncSets\<close>: the enumerators equal \<open>List.product\<close> (lexicographic order).
  \<^item> \<open>Rand\<close>, \<open>RandSlices\<close>: the seeded generator as a stream and a position
    (\<open>math/rand/v2\<close>, modelled from the spec); \<open>randSlice\<close> returns the next
    \<open>(n-1)*|inc|+1\<close> draws and panics for \<open>n = 0\<close>, \<open>|inc| \<ge> 2\<close>.
  \<^item> \<open>Blas\<close>: \<open>blas64.General\<close> and \<open>Gemm\<close> (outside the repository, modelled from the
    spec) and the refinement of \<open>gemm\<close> to the abstract product \<open>mmul\<close>.
  \<^item> \<open>Dlasr\<close>: \<open>DlasrTest\<close> as written: the enumeration, the trial with its two
    \<open>copy(a, aCopy)\<close> calls, \<open>P_k\<close> and the cumulative \<open>P\<close>; the implementation receives
    \<open>c\<close>, \<open>s\<close> and \<open>a\<close> and may write all three.  The reference never panics on the
    test's shapes, the test accepts every implementation that returns and leaves \<open>c\<close>
    and \<open>s\<close> unchanged (the copies zero the matrix and discard the result), and every one of the
    72 configurations reaches the implementation (liveness: a panic on any one of
    them is the test's).
  \<^item> \<open>Rotations\<close>: abstract elementary rotations and their ordered product;
    \<open>build_pk\<close> and \<open>rotation_product\<close> refine them (Forward pre-multiplies, Backward
    post-multiplies) and the loop keeps its state invariant \<open>loop_inv\<close>; the spec's
    round trips (no rotation gives the identity, a rotation times its inverse is the
    identity).
  \<^item> \<open>DlasrRef\<close>: the \<open>Dlasr\<close> contract (modelled from the spec and LAPACK's
    \<open>DLASR\<close>: rotations applied in order to the rows of \<open>A\<close> for side Left, to its columns
    for side Right).  For side Left and the Variable and Top pivots the test's reference
    \<open>P*A\<close> equals it; for the Bottom pivot the reference rotates a different pair of
    rows; for side Right the reference \<open>A*P\<close> is the column update with the sines
    negated and the direction reversed (LAPACK's is \<open>A*P^T\<close>), and the two disagree.
  \<^item> \<open>Float64Sort\<close>: Go's order on float64 and \<open>sort.Float64s\<close>; the order of
    \<open>Float64Slice.Less\<close> is linear (NaNs least), so the library's \<open>sort\<close> models the
    call: any sorted permutation is its result.
  \<^item> \<open>ChiSquared\<close>: the table tests, \<open>testChiSquared\<close> (a million samples drawn by
    \<open>generateSamples\<close>, sorted, handed to the sample-based checks, then the
    deterministic checks) and \<open>TestChiSquared\<close> threading the shared generator, with
    the distribution's methods as a parameter; \<open>generateSamples\<close> fills the slice with
    successive samples, and the checks receive the sorted million samples.
  \<^item> This theory: the generator consumption of a whole \<open>DlasrTest\<close> run, whatever
    the implementation writes.

  \<^medskip>
  \<^bold>\<open>Bounds and fuel.\<close>  Every loop of the harnesses is a \<open>for\<close> over a range or a
  slice, modelled by structural recursion over the list of indices; no fuel is needed
  and every definition is total and executable (the witnesses evaluate them).  Since
  termination of each loop is given by its range, there is no separate termination
  claim; the liveness claim is about the harness as a whole: each configuration reaches
  the code under test.  The parameters standing for code outside the repository
  (\<open>dist_ops\<close>, the sample checks) are total functions, so a panic inside them is not
  modelled and no claim says the ChiSquared tests never panic.

  \<^medskip>
  \<^bold>\<open>Not modelled.\<close>  The kernels under test, the \<open>Dlasr\<close> implementation and the
  distribution's methods are not in the repository: each is a parameter (a function
  on the backing array, \<open>Dlasr.dlasrer\<close>, \<open>ChiSquared.dist_ops\<close>); only the \<open>Dlasr\<close>
  contract is modelled (\<open>DlasrRef\<close>), not the assembly kernels.  The message format
  constants and the \<open>nan\<close>, \<open>inf\<close> variables of \<open>asm_test.go\<close> (lines 15--24) serve
  test files outside the repository; the reports are modelled as datatypes instead.  The sample-based check functions
  of \<open>testChiSquared\<close> (lines 78--83) are outside the repository and are an opaque
  parameter given the sorted samples.  Matrix and angle values in the \<open>Dlasr\<close> model are
  reals: NaN, infinities and overflow in \<open>Gemm\<close> are not modelled, which is why the
  claim that the test reports nothing assumes an implementation that leaves \<open>c\<close> and
  \<open>s\<close> unchanged.  Floating-point rounding, the PCG algorithm itself,
  the sorting algorithm of \<open>sort.Float64s\<close> (its result is unique) and the 64-bit
  wrap-around of \<open>-inc\<close> for the least integer are not modelled.
\<close>

text \<open>
  The draws one \<open>DlasrTest\<close> run takes from its generator: 72 trials, each taking
  \<open>m*lda\<close> values for the matrix and \<open>pSize-1\<close> for the angles.
\<close>

lemma dlasr_configs_draws:
  "(\<Sum>(side, _, _, test) \<leftarrow> dlasr_configs. trial_draws side test) = 6708"
  by (simp add: dlasr_configs_def dlasr_tests_def trial_draws_def)

text \<open>
  Claim C18 (ordering).  A \<open>DlasrTest\<close> run against any implementation that returns,
  whatever it writes into \<open>c\<close>, \<open>s\<close> and \<open>a\<close>, reads exactly the first 6708 values of its
  generator, in order: the draws of each trial happen before its call and never depend
  on the implementation, so every trial sees the same matrix and angles on every run.
\<close>

theorem DlasrTest_draws:
  assumes "\<And>side pivot direct m n c s a lda. \<exists>r. impl side pivot direct m n c s a lda = Inr r"
  shows "\<exists>errs. DlasrTest impl rnd = Inr (errs, rnd\<lparr>rng_pos := rng_pos rnd + 6708\<rparr>)"
  using dlasr_configs_fold [where xs = dlasr_configs and errs = "[]" and r = rnd, OF assms]
  by (simp add: DlasrTest_def dlasr_configs_draws)

theorem DlasrTest_draws_witness:
  "\<exists>errs. DlasrTest (\<lambda>_ _ _ _ _ c s a _. Inr (map (\<lambda>_. 7) c, map (\<lambda>_. 7) s, a)) \<lparr>rng_draw = \<lambda>_. 0, rng_pos = 7\<rparr> =
     Inr (errs, \<lparr>rng_draw = \<lambda>_. 0, rng_pos = 6715\<rparr>)"
  using DlasrTest_draws [of "\<lambda>_ _ _ _ _ c s a _. Inr (map (\<lambda>_. 7) c, map (\<lambda>_. 7) s, a)"
                            "\<lparr>rng_draw = \<lambda>_. 0, rng_pos = 7\<rparr>"] by simp

end
